theory Spec2Isabelle
  imports Complex_Main "HOL-Library.Sublist"
begin

section \<open>Python values, exceptions and the clock\<close>

text \<open>
  The model follows \<^verbatim>\<open>app/services/ ingestion.py\<close> (the implemented pipeline) and
  \<^verbatim>\<open>app/services/analytics.py\<close>. Every \<^verbatim>\<open>raise\<close> of the source is a value of
  \<open>exn\<close>; a function that can raise returns \<open>exn + 'a\<close> with \<open>Inl\<close> the exception.
  \<open>OperationalError\<close> stands for whatever the database driver raises when the store
  cannot serve an operation.
\<close>

datatype exn = ValueError | TypeError | KeyError | OverflowError | ZeroDivisionError
  | OperationalError

text \<open>
  A Python float is a double: a finite value (a real number, here), NaN or an infinity.
  Comparisons of doubles are exact. An arithmetic operation returns the exact result
  rounded to the nearest double, ties to even (\<open>double_round\<close> below).
\<close>

datatype pyfloat = Fin real | NaN | PosInf | NegInf

text \<open>
  A \<^verbatim>\<open>datetime\<close> is naive or timezone-aware; both carry an instant in microseconds
  (for an aware value, the UTC instant). Ordering a naive against an aware value raises.
\<close>

datatype pydatetime = Naive int | Aware int

text \<open>The values a reading carries under the key \<^verbatim>\<open>metric_value\<close>.\<close>

datatype pyval = PNone | PInt int | PFloat pyfloat | PStr string

text \<open>The values a reading carries under the key \<^verbatim>\<open>time\<close>: a string or a datetime.\<close>

datatype tval = TStr string | TDateTime pydatetime

definition float_overflow_bound :: int where
  "float_overflow_bound = 2 ^ 1024 - 2 ^ 970"

text \<open>
  Rounding of a real number to the nearest double. \<open>normalise\<close> scales a positive
  number into \<open>[1, 2)\<close>, counting the binary exponent, and stops at the exponent of the
  subnormal numbers; 1100 steps cover every magnitude below the overflow bound. The
  scaled number is rounded to 52 fractional bits, ties to even.
\<close>

fun normalise :: "nat \<Rightarrow> real \<Rightarrow> int \<Rightarrow> real \<times> int" where
  "normalise 0 x e = (x, e)"
| "normalise (Suc n) x e =
     (if 2 \<le> x then normalise n (x / 2) (e + 1)
      else if x < 1 \<and> - 1022 < e then normalise n (x * 2) (e - 1)
      else (x, e))"

definition pow2 :: "int \<Rightarrow> real" where
  "pow2 e = (if 0 \<le> e then 2 ^ nat e else 1 / 2 ^ nat (- e))"

definition round_half_even :: "real \<Rightarrow> int" where
  "round_half_even y =
     (let f = \<lfloor>y\<rfloor>; r = y - of_int f
      in if r < 1 / 2 then f else if 1 / 2 < r then f + 1 else if even f then f else f + 1)"

definition double_round :: "real \<Rightarrow> pyfloat" where
  "double_round x =
     (if x = 0 then Fin 0
      else if of_int float_overflow_bound \<le> \<bar>x\<bar> then (if 0 < x then PosInf else NegInf)
      else
        (case normalise 1100 \<bar>x\<bar> 0 of
           (m, e) \<Rightarrow> Fin (sgn x * of_int (round_half_even (m * 2 ^ 52)) * pow2 (e - 52))))"

text \<open>
  Division and multiplication of a double by a finite double other than zero, without the
  check for a zero divisor.
\<close>

definition float_div :: "pyfloat \<Rightarrow> real \<Rightarrow> pyfloat" where
  "float_div v t =
     (case v of
        Fin a \<Rightarrow> double_round (a / t)
      | NaN \<Rightarrow> NaN
      | PosInf \<Rightarrow> (if 0 < t then PosInf else NegInf)
      | NegInf \<Rightarrow> (if 0 < t then NegInf else PosInf))"

definition float_mul :: "pyfloat \<Rightarrow> real \<Rightarrow> pyfloat" where
  "float_mul v t =
     (case v of
        Fin a \<Rightarrow> double_round (a * t)
      | NaN \<Rightarrow> NaN
      | PosInf \<Rightarrow> (if 0 < t then PosInf else NegInf)
      | NegInf \<Rightarrow> (if 0 < t then NegInf else PosInf))"

text \<open>
  \<^verbatim>\<open>float(x)\<close>. The parser of strings is a parameter (\<open>None\<close> is \<^verbatim>\<open>ValueError\<close>);
  an integer too large for a double raises \<^verbatim>\<open>OverflowError\<close>.
\<close>

fun py_float :: "(string \<Rightarrow> pyfloat option) \<Rightarrow> pyval \<Rightarrow> exn + pyfloat" where
  "py_float parse PNone = Inl TypeError"
| "py_float parse (PInt i) =
     (if \<bar>i\<bar> < float_overflow_bound then Inr (Fin (of_int i)) else Inl OverflowError)"
| "py_float parse (PFloat f) = Inr f"
| "py_float parse (PStr s) = (case parse s of None \<Rightarrow> Inl ValueError | Some f \<Rightarrow> Inr f)"

fun float_le :: "pyfloat \<Rightarrow> pyfloat \<Rightarrow> bool" where
  "float_le NaN y = False"
| "float_le x NaN = False"
| "float_le NegInf y = True"
| "float_le x PosInf = True"
| "float_le (Fin a) (Fin b) = (a \<le> b)"
| "float_le x y = False"

fun isnan :: "pyfloat \<Rightarrow> bool" where
  "isnan NaN = True"
| "isnan x = False"

fun isinf :: "pyfloat \<Rightarrow> bool" where
  "isinf PosInf = True"
| "isinf NegInf = True"
| "isinf x = False"

fun datetime_ge :: "pydatetime \<Rightarrow> pydatetime \<Rightarrow> exn + bool" where
  "datetime_ge (Naive a) (Naive b) = Inr (a \<ge> b)"
| "datetime_ge (Aware a) (Aware b) = Inr (a \<ge> b)"
| "datetime_ge x y = Inl TypeError"

fun datetime_lt :: "pydatetime \<Rightarrow> pydatetime \<Rightarrow> exn + bool" where
  "datetime_lt (Naive a) (Naive b) = Inr (a < b)"
| "datetime_lt (Aware a) (Aware b) = Inr (a < b)"
| "datetime_lt x y = Inl TypeError"

definition timedelta_minutes :: "int \<Rightarrow> int" where
  "timedelta_minutes m = m * 60000000"

definition timedelta_hours :: "int \<Rightarrow> int" where
  "timedelta_hours h = h * 3600000000"

definition timedelta_days :: "int \<Rightarrow> int" where
  "timedelta_days d = d * 86400000000"

text \<open>\<^verbatim>\<open>s.replace("Z", "+00:00")\<close>\<close>

definition replace_Z :: "string \<Rightarrow> string" where
  "replace_Z s = concat (map (\<lambda>c. if c = CHR ''Z'' then ''+00:00'' else [c]) s)"

text \<open>A list comprehension \<^verbatim>\<open>[r for r in xs if p(r)]\<close> whose test can raise.\<close>

fun comprehension :: "('a \<Rightarrow> exn + bool) \<Rightarrow> 'a list \<Rightarrow> exn + 'a list" where
  "comprehension p [] = Inr []"
| "comprehension p (x # xs) =
     (case p x of
        Inl e \<Rightarrow> Inl e
      | Inr b \<Rightarrow>
          (case comprehension p xs of
             Inl e \<Rightarrow> Inl e
           | Inr ys \<Rightarrow> Inr (if b then x # ys else ys)))"

section \<open>Configuration\<close>

record settings =
  MAX_BATCH_SIZE :: int
  MAX_DUPLICATE_RATE :: real
  MAX_INVALID_RATE :: real
  MAX_LATE_ARRIVAL_MINUTES :: int
  GAS_DETECTION_THRESHOLD :: real
  TEMPERATURE_THRESHOLD :: real
  PRESSURE_THRESHOLD :: real

definition default_settings :: settings where
  "default_settings =
     \<lparr>MAX_BATCH_SIZE = 1000, MAX_DUPLICATE_RATE = 5 / 100, MAX_INVALID_RATE = 10 / 100,
      MAX_LATE_ARRIVAL_MINUTES = 60, GAS_DETECTION_THRESHOLD = 10,
      TEMPERATURE_THRESHOLD = 60, PRESSURE_THRESHOLD = 150\<rparr>"

text \<open>
  What a call reads from outside the store: the settings, the clock
  (\<^verbatim>\<open>datetime.utcnow()\<close>, a naive instant), the measured processing time, and the two
  library parsers \<^verbatim>\<open>float\<close> (on strings) and \<^verbatim>\<open>datetime.fromisoformat\<close>.
\<close>

record env =
  config :: settings
  utcnow :: int
  elapsed_ms :: int
  str_to_float :: "string \<Rightarrow> pyfloat option"
  fromisoformat :: "string \<Rightarrow> pydatetime option"

section \<open>The store\<close>

datatype EquipmentType = GAS_DETECTOR | TEMPERATURE_SENSOR | PRESSURE_SENSOR
  | LOCATION_TRACKER | AIR_QUALITY_MONITOR

datatype AlertSeverity = INFO | WARNING | CRITICAL | EMERGENCY

text \<open>
  The calibration date is a \<^verbatim>\<open>DateTime(timezone=True)\<close> column: the store returns it naive
  or timezone-aware, as its driver does.
\<close>

record Equipment =
  eq_equipment_id :: string
  equipment_type :: EquipmentType
  last_calibration_date :: "pydatetime option"

text \<open>
  An input reading is a dictionary; a field is \<open>None\<close> when its key is absent.
  \<^verbatim>\<open>equipment_id\<close>, \<^verbatim>\<open>metric_name\<close>, \<^verbatim>\<open>metric_unit\<close> and \<^verbatim>\<open>reading_status\<close>
  are strings, as the request schema has them.
\<close>

record reading =
  in_equipment_id :: "string option"
  in_metric_name :: "string option"
  in_metric_value :: "pyval option"
  in_time :: "tval option"
  in_metric_unit :: "string option"
  in_reading_status :: "string option"
  in_metadata :: "(string \<times> pyval) list option"

text \<open>The normalised dictionary that validation appends, also a row of \<^verbatim>\<open>sensor_readings\<close>.\<close>

record validated =
  time :: pydatetime
  equipment_id :: string
  metric_name :: string
  metric_value :: pyfloat
  metric_unit :: "string option"
  reading_status :: string
  metadata :: "(string \<times> pyval) list"

record HourlyBucket =
  hb_equipment_id :: string
  hb_metric_name :: string
  bucket :: int
  avg_value :: real
  min_value :: real
  max_value :: real
  stddev_value :: real

record Alert =
  al_equipment_id :: string
  triggered_at :: int

record DataQualityMetric =
  total_records_processed :: int
  invalid_records :: int
  duplicate_records :: int
  late_arriving_records :: int
  qm_processing_time_ms :: int
  pipeline_stage :: string
  duplicate_rate :: pyfloat
  invalid_rate :: pyfloat

text \<open>
  The operations the services run on the session. The store fails on the kinds of
  operation listed in \<open>failing\<close> (an unreachable store fails on all of them).
\<close>

datatype db_op = QueryEquipment | InsertReadings | AddMetric | QueryReadings | QueryHourly
  | CountAlerts | CountReadings

record db =
  equipment :: "Equipment list"
  sensor_readings :: "validated list"
  sensor_readings_hourly :: "HourlyBucket list"
  alerts :: "Alert list"
  data_quality_metrics :: "DataQualityMetric list"
  failing :: "db_op list"

definition raises :: "db \<Rightarrow> db_op \<Rightarrow> bool" where
  "raises d op = (op \<in> set (failing d))"

text \<open>\<^verbatim>\<open>db.query(Equipment).filter(Equipment.equipment_id == eid).first()\<close>\<close>

definition query_equipment :: "db \<Rightarrow> string \<Rightarrow> exn + Equipment option" where
  "query_equipment d eid =
     (if raises d QueryEquipment then Inl OperationalError
      else Inr (find (\<lambda>e. eq_equipment_id e = eid) (equipment d)))"

section \<open>Ingestion pipeline\<close>

record stats =
  total_processed :: int
  invalid :: int
  duplicates :: int
  late_arrivals :: int

text \<open>\<^verbatim>\<open>DataIngestionPipeline.__init__\<close>: the counters of a new instance.\<close>

definition init_stats :: stats where
  "init_stats = \<lparr>total_processed = 0, invalid = 0, duplicates = 0, late_arrivals = 0\<rparr>"

definition ranges :: "(string \<times> real \<times> real) list" where
  "ranges =
     [(''gas_concentration'', (- (1 / 10), 10000)),
      (''temperature'', (- 50, 200)),
      (''pressure'', (0, 1000)),
      (''humidity'', (0, 100)),
      (''battery_level'', (0, 100))]"

definition is_value_reasonable :: "string \<Rightarrow> pyfloat \<Rightarrow> bool" where
  "is_value_reasonable name v =
     (case (case map_of ranges name of Some r \<Rightarrow> r | None \<Rightarrow> (- 1000000, 1000000)) of
        (min_val, max_val) \<Rightarrow>
          float_le (Fin min_val) v \<and> float_le v (Fin max_val) \<and> \<not> isnan v \<and> \<not> isinf v)"

text \<open>The exceptions the \<^verbatim>\<open>except (ValueError, TypeError, KeyError)\<close> of the loop catches.\<close>

definition caught :: "exn \<Rightarrow> bool" where
  "caught e = (e = ValueError \<or> e = TypeError \<or> e = KeyError)"

definition has_required_fields :: "reading \<Rightarrow> bool" where
  "has_required_fields r =
     (in_equipment_id r \<noteq> None \<and> in_metric_name r \<noteq> None \<and> in_metric_value r \<noteq> None
      \<and> in_time r \<noteq> None)"

definition parse_timestamp :: "env \<Rightarrow> tval \<Rightarrow> exn + pydatetime" where
  "parse_timestamp ev t =
     (case t of
        TStr s \<Rightarrow> (case fromisoformat ev (replace_Z s) of
                     None \<Rightarrow> Inl ValueError
                   | Some ts \<Rightarrow> Inr ts)
      | TDateTime ts \<Rightarrow> Inr ts)"

definition normalised :: "reading \<Rightarrow> pydatetime \<Rightarrow> pyfloat \<Rightarrow> validated" where
  "normalised r timestamp value =
     \<lparr>time = timestamp,
      equipment_id = the (in_equipment_id r),
      metric_name = the (in_metric_name r),
      metric_value = value,
      metric_unit = in_metric_unit r,
      reading_status = (case in_reading_status r of None \<Rightarrow> ''normal'' | Some s \<Rightarrow> s),
      metadata = (case in_metadata r of None \<Rightarrow> [] | Some m \<Rightarrow> m)\<rparr>"

text \<open>
  The body of the loop of \<^verbatim>\<open>_validate_readings\<close> for one reading: \<open>Inr None\<close> when the
  reading is counted invalid and skipped, \<open>Inr (Some v)\<close> when \<open>v\<close> is appended, \<open>Inl e\<close>
  when an exception the loop does not catch leaves \<^verbatim>\<open>_validate_readings\<close>.
\<close>

definition validate_reading :: "env \<Rightarrow> db \<Rightarrow> reading \<Rightarrow> exn + validated option" where
  "validate_reading ev d r =
     (if \<not> has_required_fields r then Inr None
      else
        (case py_float (str_to_float ev) (the (in_metric_value r)) of
           Inl e \<Rightarrow> if caught e then Inr None else Inl e
         | Inr value \<Rightarrow>
             (case parse_timestamp ev (the (in_time r)) of
                Inl e \<Rightarrow> if caught e then Inr None else Inl e
              | Inr timestamp \<Rightarrow>
                  if \<not> is_value_reasonable (the (in_metric_name r)) value then Inr None
                  else
                    (case query_equipment d (the (in_equipment_id r)) of
                       Inl e \<Rightarrow> if caught e then Inr None else Inl e
                     | Inr None \<Rightarrow> Inr None
                     | Inr (Some eq) \<Rightarrow> Inr (Some (normalised r timestamp value))))))"

fun validate_loop ::
  "env \<Rightarrow> db \<Rightarrow> reading list \<Rightarrow> stats \<Rightarrow> validated list \<Rightarrow> (exn + validated list) \<times> stats"
where
  "validate_loop ev d [] st acc = (Inr acc, st)"
| "validate_loop ev d (r # rs) st acc =
     (case validate_reading ev d r of
        Inl e \<Rightarrow> (Inl e, st)
      | Inr None \<Rightarrow> validate_loop ev d rs (st\<lparr>invalid := invalid st + 1\<rparr>) acc
      | Inr (Some v) \<Rightarrow> validate_loop ev d rs st (acc @ [v]))"

definition validate_readings ::
  "env \<Rightarrow> db \<Rightarrow> stats \<Rightarrow> reading list \<Rightarrow> (exn + validated list) \<times> stats"
where
  "validate_readings ev d st readings =
     (case validate_loop ev d readings st [] of
        (Inl e, st') \<Rightarrow> (Inl e, st')
      | (Inr vs, st') \<Rightarrow>
          (Inr vs, st'\<lparr>total_processed := total_processed st' + int (length readings)\<rparr>))"

definition natural_key :: "validated \<Rightarrow> string \<times> string \<times> pydatetime" where
  "natural_key v = (equipment_id v, metric_name v, time v)"

text \<open>
  \<^verbatim>\<open>df.drop_duplicates(subset=[...], keep="first")\<close>: one pass in input order that keeps
  a row when its key has not been seen.
\<close>

fun drop_duplicates ::
  "(string \<times> string \<times> pydatetime) list \<Rightarrow> validated list \<Rightarrow> validated list"
where
  "drop_duplicates seen [] = []"
| "drop_duplicates seen (v # vs) =
     (if natural_key v \<in> set seen then drop_duplicates seen vs
      else v # drop_duplicates (natural_key v # seen) vs)"

definition deduplicate :: "stats \<Rightarrow> validated list \<Rightarrow> validated list \<times> stats" where
  "deduplicate st readings =
     (if readings = [] then ([], st)
      else
        (let df_unique = drop_duplicates [] readings;
             duplicates_removed = int (length readings) - int (length df_unique)
         in (df_unique, st\<lparr>duplicates := duplicates st + duplicates_removed\<rparr>)))"

definition check_timeliness ::
  "env \<Rightarrow> validated list \<Rightarrow> exn + (validated list \<times> validated list)"
where
  "check_timeliness ev readings =
     (if readings = [] then Inr ([], [])
      else
        (let cutoff = Naive (utcnow ev - timedelta_minutes (MAX_LATE_ARRIVAL_MINUTES (config ev)))
         in case comprehension (\<lambda>r. datetime_ge (time r) cutoff) readings of
              Inl e \<Rightarrow> Inl e
            | Inr on_time \<Rightarrow>
                (case comprehension (\<lambda>r. datetime_lt (time r) cutoff) readings of
                   Inl e \<Rightarrow> Inl e
                 | Inr late \<Rightarrow> Inr (on_time, late))))"

text \<open>\<^verbatim>\<open>INSERT ... ON CONFLICT DO NOTHING\<close> of one row, on the primary key of the table.\<close>

definition insert_row :: "validated list \<Rightarrow> validated \<Rightarrow> validated list" where
  "insert_row rows r =
     (if natural_key r \<in> natural_key ` set rows then rows else rows @ [r])"

text \<open>\<^verbatim>\<open>db.execute(insert_stmt, batch); db.commit()\<close>\<close>

definition execute_insert :: "db \<Rightarrow> validated list \<Rightarrow> exn + db" where
  "execute_insert d batch =
     (if raises d InsertReadings then Inl OperationalError
      else Inr (d\<lparr>sensor_readings := foldl insert_row (sensor_readings d) batch\<rparr>))"

text \<open>\<^verbatim>\<open>readings[i:i + n] for i in range(0, len(readings), n)\<close>, for \<open>n > 0\<close>.\<close>

function chunks :: "nat \<Rightarrow> 'a list \<Rightarrow> 'a list list" where
  "chunks n xs = (if n = 0 \<or> xs = [] then [] else take n xs # chunks n (drop n xs))"
  by pat_completeness auto
termination
  by (relation "measure (\<lambda>(n, xs). length xs)") auto

declare chunks.simps [simp del]

text \<open>The loop over the chunks: the store keeps the chunks committed before a failure.\<close>

fun insert_chunks :: "db \<Rightarrow> validated list list \<Rightarrow> exn option \<times> db" where
  "insert_chunks d [] = (None, d)"
| "insert_chunks d (c # cs) =
     (case execute_insert d c of
        Inl e \<Rightarrow> (Some e, d)
      | Inr d' \<Rightarrow> insert_chunks d' cs)"

text \<open>
  \<^verbatim>\<open>_bulk_insert\<close>. \<^verbatim>\<open>range(0, n, 0)\<close> raises \<^verbatim>\<open>ValueError\<close>; with a negative step
  the range is empty. Every exception is re-raised after the rollback.
\<close>

definition bulk_insert :: "env \<Rightarrow> db \<Rightarrow> validated list \<Rightarrow> exn option \<times> db" where
  "bulk_insert ev d readings =
     (if readings = [] then (None, d)
      else
        (let batch_size = MAX_BATCH_SIZE (config ev)
         in if batch_size = 0 then (Some ValueError, d)
            else if batch_size < 0 then (None, d)
            else insert_chunks d (chunks (nat batch_size) readings)))"

text \<open>
  \<^verbatim>\<open>_record_quality_metrics\<close>: one row from the counters of the instance; an exception
  of the store is logged and swallowed. \<^verbatim>\<open>_check_quality_thresholds\<close> only logs.
\<close>

definition record_quality_metrics :: "stats \<Rightarrow> db \<Rightarrow> int \<Rightarrow> db" where
  "record_quality_metrics st d processing_time =
     (let metric =
            \<lparr>total_records_processed = total_processed st,
             invalid_records = invalid st,
             duplicate_records = duplicates st,
             late_arriving_records = late_arrivals st,
             qm_processing_time_ms = processing_time,
             pipeline_stage = ''ingestion'',
             duplicate_rate =
               double_round (of_int (duplicates st) / of_int (max (total_processed st) 1)),
             invalid_rate =
               double_round (of_int (invalid st) / of_int (max (total_processed st) 1))\<rparr>
      in if raises d AddMetric then d
         else d\<lparr>data_quality_metrics := data_quality_metrics d @ [metric]\<rparr>)"

record ingestion_counts =
  total_received :: int
  total_inserted :: int
  invalid_count :: int
  duplicate_count :: int
  late_arrival_count :: int
  processing_time_ms :: int

text \<open>
  The dictionary \<^verbatim>\<open>ingest_batch\<close> returns: \<open>Success\<close> with \<^verbatim>\<open>"success": True\<close> and the
  counts, \<open>Failure\<close> with \<^verbatim>\<open>"success": False\<close>, the exception and \<^verbatim>\<open>total_received\<close>.
\<close>

datatype ingest_result = Success ingestion_counts | Failure exn int

text \<open>
  \<^verbatim>\<open>ingest_batch\<close>, with the counters of the instance and the store passed in and
  returned.
\<close>

definition ingest_batch ::
  "env \<Rightarrow> stats \<Rightarrow> db \<Rightarrow> reading list \<Rightarrow> ingest_result \<times> stats \<times> db"
where
  "ingest_batch ev st d readings =
     (case validate_readings ev d st readings of
        (Inl e, st1) \<Rightarrow> (Failure e (int (length readings)), st1, d)
      | (Inr validated_readings, st1) \<Rightarrow>
          (case deduplicate st1 validated_readings of
             (unique_readings, st2) \<Rightarrow>
               (case check_timeliness ev unique_readings of
                  Inl e \<Rightarrow> (Failure e (int (length readings)), st2, d)
                | Inr (on_time, late) \<Rightarrow>
                    (let st3 = st2\<lparr>late_arrivals := late_arrivals st2 + int (length late)\<rparr>
                     in case (if on_time \<noteq> [] then bulk_insert ev d on_time else (None, d)) of
                          (Some e, d1) \<Rightarrow> (Failure e (int (length readings)), st3, d1)
                        | (None, d1) \<Rightarrow>
                            (Success
                               \<lparr>total_received = int (length readings),
                                total_inserted = int (length on_time),
                                invalid_count = invalid st3,
                                duplicate_count = duplicates st3,
                                late_arrival_count = late_arrivals st3,
                                processing_time_ms = elapsed_ms ev\<rparr>,
                             st3,
                             record_quality_metrics st3 d1 (elapsed_ms ev))))))"

section \<open>Analytics engine\<close>

definition instant :: "pydatetime \<Rightarrow> int" where
  "instant t = (case t of Naive i \<Rightarrow> i | Aware i \<Rightarrow> i)"

fun float_lt :: "pyfloat \<Rightarrow> pyfloat \<Rightarrow> bool" where
  "float_lt NaN y = False"
| "float_lt x NaN = False"
| "float_lt (Fin a) (Fin b) = (a < b)"
| "float_lt (Fin a) PosInf = True"
| "float_lt NegInf (Fin b) = True"
| "float_lt NegInf PosInf = True"
| "float_lt x y = False"

text \<open>
  \<^verbatim>\<open>value / threshold\<close> on Python floats: a zero divisor raises, otherwise the result is
  the rounded quotient.
\<close>

definition truediv :: "pyfloat \<Rightarrow> real \<Rightarrow> exn + pyfloat" where
  "truediv v t = (if t = 0 then Inl ZeroDivisionError else Inr (float_div v t))"

definition threshold_severity :: "pyfloat \<Rightarrow> real \<Rightarrow> exn + AlertSeverity" where
  "threshold_severity v threshold =
     (case truediv v threshold of
        Inl e \<Rightarrow> Inl e
      | Inr ratio \<Rightarrow>
          Inr (if float_lt (Fin 2) ratio then EMERGENCY
               else if float_lt (Fin (3 / 2)) ratio then CRITICAL
               else if float_lt (Fin (6 / 5)) ratio then WARNING
               else INFO))"

definition calculate_severity :: "real \<Rightarrow> AlertSeverity" where
  "calculate_severity anomaly_score =
     (if anomaly_score < - (1 / 2) then CRITICAL
      else if anomaly_score < - (3 / 10) then WARNING
      else INFO)"

fun equipment_type_value :: "EquipmentType \<Rightarrow> string" where
  "equipment_type_value GAS_DETECTOR = ''gas_detector''"
| "equipment_type_value TEMPERATURE_SENSOR = ''temperature_sensor''"
| "equipment_type_value PRESSURE_SENSOR = ''pressure_sensor''"
| "equipment_type_value LOCATION_TRACKER = ''location_tracker''"
| "equipment_type_value AIR_QUALITY_MONITOR = ''air_quality_monitor''"

definition threshold_map :: "settings \<Rightarrow> (string \<times> (string \<times> real) list) list" where
  "threshold_map cfg =
     [(''gas_detector'', [(''gas_concentration'', GAS_DETECTION_THRESHOLD cfg)]),
      (''temperature_sensor'', [(''temperature'', TEMPERATURE_THRESHOLD cfg)]),
      (''pressure_sensor'', [(''pressure'', PRESSURE_THRESHOLD cfg)]),
      (''air_quality_monitor'', [(''pm25'', 35), (''pm10'', 150), (''co2'', 1000)])]"

definition get_thresholds :: "settings \<Rightarrow> string \<Rightarrow> (string \<times> real) list" where
  "get_thresholds cfg ty = (case map_of (threshold_map cfg) ty of None \<Rightarrow> [] | Some m \<Rightarrow> m)"

record ThresholdViolation =
  tv_time :: pydatetime
  tv_metric_name :: string
  tv_metric_value :: pyfloat
  tv_metric_unit :: "string option"
  threshold :: real
  severity :: AlertSeverity

text \<open>
  The query of \<^verbatim>\<open>check_thresholds\<close>: the rows of one equipment and metric after the
  cutoff whose value exceeds the threshold, latest first, at most ten.
\<close>

definition query_exceeding ::
  "db \<Rightarrow> string \<Rightarrow> string \<Rightarrow> int \<Rightarrow> real \<Rightarrow> exn + validated list"
where
  "query_exceeding d eid name cutoff th =
     (if raises d QueryReadings then Inl OperationalError
      else Inr (take 10 (rev (sort_key (\<lambda>r. instant (time r))
             (filter (\<lambda>r. equipment_id r = eid \<and> metric_name r = name
                          \<and> instant (time r) > cutoff \<and> float_lt (Fin th) (metric_value r))
                (sensor_readings d))))))"

fun violations_of_rows ::
  "string \<Rightarrow> real \<Rightarrow> validated list \<Rightarrow> ThresholdViolation list
     \<Rightarrow> exn + ThresholdViolation list"
where
  "violations_of_rows name th [] violations = Inr violations"
| "violations_of_rows name th (row # rows) violations =
     (case threshold_severity (metric_value row) th of
        Inl e \<Rightarrow> Inl e
      | Inr sev \<Rightarrow>
          violations_of_rows name th rows
            (violations @
               [\<lparr>tv_time = time row, tv_metric_name = name,
                 tv_metric_value = metric_value row, tv_metric_unit = metric_unit row,
                 threshold = th, severity = sev\<rparr>]))"

fun violations_of_thresholds ::
  "db \<Rightarrow> string \<Rightarrow> int \<Rightarrow> (string \<times> real) list \<Rightarrow> ThresholdViolation list
     \<Rightarrow> exn + ThresholdViolation list"
where
  "violations_of_thresholds d eid cutoff [] violations = Inr violations"
| "violations_of_thresholds d eid cutoff ((name, th) # rest) violations =
     (case query_exceeding d eid name cutoff th of
        Inl e \<Rightarrow> Inl e
      | Inr rows \<Rightarrow>
          (case violations_of_rows name th rows violations of
             Inl e \<Rightarrow> Inl e
           | Inr violations' \<Rightarrow> violations_of_thresholds d eid cutoff rest violations'))"

text \<open>The \<^verbatim>\<open>try\<close> block of \<^verbatim>\<open>check_thresholds\<close>.\<close>

definition check_thresholds_try ::
  "env \<Rightarrow> db \<Rightarrow> string \<Rightarrow> int \<Rightarrow> exn + ThresholdViolation list"
where
  "check_thresholds_try ev d eid lookback_minutes =
     (let cutoff_time = utcnow ev - timedelta_minutes lookback_minutes
      in case query_equipment d eid of
           Inl e \<Rightarrow> Inl e
         | Inr None \<Rightarrow> Inr []
         | Inr (Some eq) \<Rightarrow>
             violations_of_thresholds d eid cutoff_time
               (get_thresholds (config ev) (equipment_type_value (equipment_type eq))) [])"

text \<open>\<^verbatim>\<open>check_thresholds\<close>: \<^verbatim>\<open>except Exception\<close> returns the empty list.\<close>

definition check_thresholds :: "env \<Rightarrow> db \<Rightarrow> string \<Rightarrow> int \<Rightarrow> ThresholdViolation list" where
  "check_thresholds ev d eid lookback_minutes =
     (case check_thresholds_try ev d eid lookback_minutes of
        Inl e \<Rightarrow> []
      | Inr violations \<Rightarrow> violations)"

record Anomaly =
  an_time :: pydatetime
  an_metric_value :: pyfloat
  anomaly_score :: real
  an_severity :: AlertSeverity

definition query_readings :: "db \<Rightarrow> string \<Rightarrow> string \<Rightarrow> int \<Rightarrow> exn + validated list" where
  "query_readings d eid name cutoff =
     (if raises d QueryReadings then Inl OperationalError
      else Inr (sort_key (\<lambda>r. instant (time r))
             (filter (\<lambda>r. equipment_id r = eid \<and> metric_name r = name
                          \<and> instant (time r) > cutoff)
                (sensor_readings d))))"

text \<open>
  \<^verbatim>\<open>detect_anomalies\<close>. The rolling features and the isolation forest are library code:
  \<open>forest\<close> maps the series of values to the pairs (prediction, score), one per row.
  \<^verbatim>\<open>except Exception\<close> returns the empty list.
\<close>

definition detect_anomalies ::
  "(pyfloat list \<Rightarrow> (int \<times> real) list) \<Rightarrow> env \<Rightarrow> db \<Rightarrow> string \<Rightarrow> string \<Rightarrow> int
     \<Rightarrow> Anomaly list"
where
  "detect_anomalies forest ev d eid name lookback_hours =
     (case query_readings d eid name (utcnow ev - timedelta_hours lookback_hours) of
        Inl e \<Rightarrow> []
      | Inr df \<Rightarrow>
          if length df < 50 then []
          else
            map (\<lambda>(row, pred, score).
                   \<lparr>an_time = time row, an_metric_value = metric_value row,
                    anomaly_score = score, an_severity = calculate_severity score\<rparr>)
              (filter (\<lambda>(row, pred, score). pred = - 1)
                 (zip df (forest (map metric_value df)))))"

text \<open>The value under \<^verbatim>\<open>"error"\<close>: a fixed message, or \<^verbatim>\<open>str(e)\<close> of a caught exception.\<close>

datatype error_info = Message string | Raised exn

datatype 'a outcome = Error error_info | Result 'a

record TrendSummary =
  ts_equipment_id :: string
  ts_metric_name :: string
  period_days :: int
  trend_direction :: string
  trend_slope :: real
  average_value :: real
  recent_average :: real
  percent_change :: pyfloat
  volatility :: pyfloat
  ts_min_value :: real
  ts_max_value :: real
  data_points :: int

text \<open>
  The numerical library: the slope of \<^verbatim>\<open>np.polyfit(np.arange(n), values, 1)\<close> and the
  \<^verbatim>\<open>mean()\<close> of a column, both parameters.
\<close>

record numeric_library =
  polyfit_slope :: "real list \<Rightarrow> real"
  series_mean :: "real list \<Rightarrow> real"

definition query_hourly :: "db \<Rightarrow> string \<Rightarrow> string \<Rightarrow> int \<Rightarrow> exn + HourlyBucket list" where
  "query_hourly d eid name cutoff =
     (if raises d QueryHourly then Inl OperationalError
      else Inr (sort_key bucket
             (filter (\<lambda>b. hb_equipment_id b = eid \<and> hb_metric_name b = name \<and> bucket b > cutoff)
                (sensor_readings_hourly d))))"

definition analyze_trends ::
  "numeric_library \<Rightarrow> env \<Rightarrow> db \<Rightarrow> string \<Rightarrow> string \<Rightarrow> int \<Rightarrow> TrendSummary outcome"
where
  "analyze_trends lib ev d eid name days =
     (case query_hourly d eid name (utcnow ev - timedelta_days days) of
        Inl e \<Rightarrow> Error (Raised e)
      | Inr df \<Rightarrow>
          if length df < 24 then Error (Message ''Insufficient data for trend analysis'')
          else
            (let vals = map avg_value df;
                 slope = polyfit_slope lib vals;
                 vol = (if series_mean lib vals \<noteq> 0
                        then double_round
                               (series_mean lib (map stddev_value df) / series_mean lib vals)
                        else Fin 0);
                 recent_avg = series_mean lib (drop (length vals - 24) vals);
                 historical_avg = series_mean lib vals;
                 change = (if historical_avg \<noteq> 0
                           then float_mul
                                  (float_div (double_round (recent_avg - historical_avg))
                                     historical_avg) 100
                           else Fin 0)
             in Result
                  \<lparr>ts_equipment_id = eid, ts_metric_name = name, period_days = days,
                   trend_direction = (if slope > 0 then ''increasing'' else ''decreasing''),
                   trend_slope = slope, average_value = series_mean lib vals,
                   recent_average = recent_avg, percent_change = change, volatility = vol,
                   ts_min_value = foldl min (min_value (hd df)) (map min_value (tl df)),
                   ts_max_value = foldl max (max_value (hd df)) (map max_value (tl df)),
                   data_points = int (length df)\<rparr>))"







section \<open>Fixtures and auxiliary predicates\<close>

definition severity_ok :: "ThresholdViolation \<Rightarrow> bool" where
  "severity_ok v = (threshold_severity (tv_metric_value v) (threshold v) = Inr (severity v))"


text \<open>A store with one gas detector and one reading of 25 ppm.\<close>

definition gas_db :: db where
  "gas_db =
     \<lparr>equipment = [\<lparr>eq_equipment_id = ''GAS-001'', equipment_type = GAS_DETECTOR,
                     last_calibration_date = None\<rparr>],
      sensor_readings =
        [\<lparr>time = Naive 1000, equipment_id = ''GAS-001'', metric_name = ''gas_concentration'',
          metric_value = Fin 25, metric_unit = Some ''ppm'', reading_status = ''normal'',
          metadata = []\<rparr>],
      sensor_readings_hourly = [], alerts = [], data_quality_metrics = [], failing = []\<rparr>"

definition test_env :: env where
  "test_env =
     \<lparr>config = default_settings, utcnow = 2000, elapsed_ms = 3,
      str_to_float = (\<lambda>s. None), fromisoformat = (\<lambda>s. None)\<rparr>"

text \<open>
  A store with one sensor calibrated 200 days before the clock of \<open>maint_env\<close>, with 15
  alerts and 500 readings in the last 30 days.
\<close>

definition maint_env :: env where
  "maint_env =
     \<lparr>config = default_settings, utcnow = timedelta_days 200, elapsed_ms = 0,
      str_to_float = (\<lambda>s. None), fromisoformat = (\<lambda>s. None)\<rparr>"

definition maint_equipment :: Equipment where
  "maint_equipment =
     \<lparr>eq_equipment_id = ''TEMP-001'', equipment_type = TEMPERATURE_SENSOR,
      last_calibration_date = Some (Naive 0)\<rparr>"

definition maint_reading :: "nat \<Rightarrow> validated" where
  "maint_reading i =
     \<lparr>time = Naive (timedelta_days 200 - 1 - int i), equipment_id = ''TEMP-001'',
      metric_name = ''temperature'', metric_value = Fin 20, metric_unit = None,
      reading_status = ''normal'', metadata = []\<rparr>"

definition maint_db :: db where
  "maint_db =
     \<lparr>equipment = [maint_equipment],
      sensor_readings = map maint_reading [0 ..< 500],
      sensor_readings_hourly = [],
      alerts = replicate 15 \<lparr>al_equipment_id = ''TEMP-001'', triggered_at = timedelta_days 199\<rparr>,
      data_quality_metrics = [], failing = []\<rparr>"



text \<open>A numerical library for the fixtures with too few buckets, where it is never called.\<close>

definition any_library :: numeric_library where
  "any_library = \<lparr>polyfit_slope = (\<lambda>ys. 0), series_mean = (\<lambda>xs. 0)\<rparr>"

subsection \<open>Views of one call\<close>

text \<open>
  What \<^verbatim>\<open>_validate_readings\<close> does with one reading: it appends a record (\<open>accept\<close>),
  counts the reading invalid (\<open>rejected\<close>), or lets an exception escape (\<open>aborts\<close>).
\<close>

definition accept :: "env \<Rightarrow> db \<Rightarrow> reading \<Rightarrow> validated option" where
  "accept ev d r = (case validate_reading ev d r of Inr (Some v) \<Rightarrow> Some v | _ \<Rightarrow> None)"

definition accepted_of :: "env \<Rightarrow> db \<Rightarrow> reading list \<Rightarrow> validated list" where
  "accepted_of ev d rs = List.map_filter (accept ev d) rs"

definition rejected :: "env \<Rightarrow> db \<Rightarrow> reading \<Rightarrow> bool" where
  "rejected ev d r = (validate_reading ev d r = Inr None)"

definition aborts :: "env \<Rightarrow> db \<Rightarrow> reading \<Rightarrow> bool" where
  "aborts ev d r = (case validate_reading ev d r of Inl e \<Rightarrow> True | Inr x \<Rightarrow> False)"

definition rejected_count :: "env \<Rightarrow> db \<Rightarrow> reading list \<Rightarrow> int" where
  "rejected_count ev d rs = int (length (filter (rejected ev d) rs))"

text \<open>
  The stages after validation, as functions of the batch: the survivors of deduplication
  and their split at the cutoff.
\<close>

definition cutoff_of :: "env \<Rightarrow> pydatetime" where
  "cutoff_of ev = Naive (utcnow ev - timedelta_minutes (MAX_LATE_ARRIVAL_MINUTES (config ev)))"

definition is_on_time :: "env \<Rightarrow> validated \<Rightarrow> bool" where
  "is_on_time ev v = (datetime_ge (time v) (cutoff_of ev) = Inr True)"

definition is_late :: "env \<Rightarrow> validated \<Rightarrow> bool" where
  "is_late ev v = (datetime_lt (time v) (cutoff_of ev) = Inr True)"

definition unique_of :: "env \<Rightarrow> db \<Rightarrow> reading list \<Rightarrow> validated list" where
  "unique_of ev d rs = drop_duplicates [] (accepted_of ev d rs)"

definition on_time_of :: "env \<Rightarrow> db \<Rightarrow> reading list \<Rightarrow> validated list" where
  "on_time_of ev d rs = filter (is_on_time ev) (unique_of ev d rs)"

definition late_of :: "env \<Rightarrow> db \<Rightarrow> reading list \<Rightarrow> validated list" where
  "late_of ev d rs = filter (is_late ev) (unique_of ev d rs)"

definition duplicates_in :: "env \<Rightarrow> db \<Rightarrow> reading list \<Rightarrow> int" where
  "duplicates_in ev d rs = int (length (accepted_of ev d rs)) - int (length (unique_of ev d rs))"

text \<open>The counters after a call that got past the timeliness stage.\<close>

definition stats_after :: "env \<Rightarrow> db \<Rightarrow> stats \<Rightarrow> reading list \<Rightarrow> stats" where
  "stats_after ev d st rs =
     \<lparr>total_processed = total_processed st + int (length rs),
      invalid = invalid st + rejected_count ev d rs,
      duplicates = duplicates st + duplicates_in ev d rs,
      late_arrivals = late_arrivals st + int (length (late_of ev d rs))\<rparr>"

subsection \<open>Fixtures of the ingestion tests\<close>

text \<open>
  The store of \<^verbatim>\<open>tests/test_ingestion.py\<close>: one gas detector \<^verbatim>\<open>TEST-001\<close>. The clock
  of \<open>ingest_env\<close> stands at 10000 seconds, so the cutoff is 6400 seconds.
\<close>

definition test_db :: db where
  "test_db =
     \<lparr>equipment = [\<lparr>eq_equipment_id = ''TEST-001'', equipment_type = GAS_DETECTOR,
                     last_calibration_date = None\<rparr>],
      sensor_readings = [], sensor_readings_hourly = [], alerts = [],
      data_quality_metrics = [], failing = []\<rparr>"

definition ingest_env :: env where
  "ingest_env =
     \<lparr>config = default_settings, utcnow = 10000000000, elapsed_ms = 3,
      str_to_float = (\<lambda>s. None), fromisoformat = (\<lambda>s. None)\<rparr>"

definition mk_reading :: "string \<Rightarrow> string \<Rightarrow> pyval \<Rightarrow> tval \<Rightarrow> reading" where
  "mk_reading eid name v t =
     \<lparr>in_equipment_id = Some eid, in_metric_name = Some name, in_metric_value = Some v,
      in_time = Some t, in_metric_unit = None, in_reading_status = None, in_metadata = None\<rparr>"

definition late_reading :: reading where
  "late_reading =
     mk_reading ''TEST-001'' ''temperature'' (PFloat (Fin 25))
       (TDateTime (Naive (10000000000 - timedelta_hours 2)))"

definition good_reading :: reading where
  "good_reading =
     mk_reading ''TEST-001'' ''gas_concentration'' (PFloat (Fin 5)) (TDateTime (Naive 10000000000))"

definition unknown_reading :: reading where
  "unknown_reading =
     mk_reading ''NONEXISTENT'' ''temperature'' (PFloat (Fin 25)) (TDateTime (Naive 10000000000))"

subsection \<open>The rejection criteria of the specification\<close>






definition unparseable_time :: "env \<Rightarrow> reading \<Rightarrow> bool" where
  "unparseable_time ev r =
     (case in_time r of
        Some (TStr s) \<Rightarrow> fromisoformat ev (replace_Z s) = None
      | _ \<Rightarrow> False)"

text \<open>\<^verbatim>\<open>float()\<close> of the metric value raises \<^verbatim>\<open>OverflowError\<close>.\<close>

definition float_overflows :: "env \<Rightarrow> reading \<Rightarrow> bool" where
  "float_overflows ev r =
     (case in_metric_value r of
        None \<Rightarrow> False
      | Some mv \<Rightarrow> py_float (str_to_float ev) mv = Inl OverflowError)"

definition huge_bad_reading :: reading where
  "huge_bad_reading =
     mk_reading ''TEST-001'' ''gas_concentration'' (PInt (2 ^ 1024)) (TStr ''not-a-timestamp'')"

definition bad_time_reading :: reading where
  "bad_time_reading =
     mk_reading ''TEST-001'' ''gas_concentration'' (PFloat (Fin 5)) (TStr ''not-a-timestamp'')"


definition good_validated :: validated where
  "good_validated =
     \<lparr>time = Naive 10000000000, equipment_id = ''TEST-001'',
      metric_name = ''gas_concentration'', metric_value = Fin 5, metric_unit = None,
      reading_status = ''normal'', metadata = []\<rparr>"

text \<open>A sequence of calls on one pipeline instance and one store.\<close>

fun run_calls ::
  "stats \<Rightarrow> db \<Rightarrow> (env \<times> reading list) list \<Rightarrow> ingest_result list \<times> stats \<times> db"
where
  "run_calls st d [] = ([], st, d)"
| "run_calls st d ((ev, readings) # calls) =
     (case ingest_batch ev st d readings of
        (res, st1, d1) \<Rightarrow>
          (case run_calls st1 d1 calls of (rs, st2, d2) \<Rightarrow> (res # rs, st2, d2)))"

subsection \<open>Store failures and quiet data\<close>

text \<open>A reading that passes every check made before the registry lookup.\<close>

definition reaches_registry :: "env \<Rightarrow> reading \<Rightarrow> bool" where
  "reaches_registry ev r =
     (has_required_fields r
      \<and> (\<exists>v ts. py_float (str_to_float ev) (the (in_metric_value r)) = Inr v
            \<and> parse_timestamp ev (the (in_time r)) = Inr ts
            \<and> is_value_reasonable (the (in_metric_name r)) v))"

text \<open>
  A fit of the isolation forest that flags no row (every prediction is 1), as on a constant
  series.
\<close>

definition quiet_forest :: "pyfloat list \<Rightarrow> (int \<times> real) list" where
  "quiet_forest vs = map (\<lambda>v. (1, 0)) vs"

definition all_ops :: "db_op list" where
  "all_ops = [QueryEquipment, InsertReadings, AddMetric, QueryReadings, QueryHourly,
              CountAlerts, CountReadings]"

definition down_db :: db where
  "down_db = gas_db\<lparr>failing := all_ops\<rparr>"

definition gas_reading :: reading where
  "gas_reading =
     mk_reading ''GAS-001'' ''gas_concentration'' (PFloat (Fin 5)) (TDateTime (Naive 2000))"

section \<open>Properties\<close>

subsection \<open>Evaluation of rounding\<close>

lemma normalise_numeral:
  "normalise (numeral k) x e =
     (if 2 \<le> x then normalise (pred_numeral k) (x / 2) (e + 1)
      else if x < 1 \<and> - 1022 < e then normalise (pred_numeral k) (x * 2) (e - 1)
      else (x, e))"
  by (simp add: numeral_eq_Suc)

lemmas double_eval = double_round_def float_overflow_bound_def normalise_numeral pow2_def
  round_half_even_def float_div_def float_mul_def Let_def

subsection \<open>Threshold severity\<close>

lemma violations_of_rows_ok:
  "violations_of_rows name th rows acc = Inr vs \<Longrightarrow> \<forall>v\<in>set acc. severity_ok v
     \<Longrightarrow> \<forall>v\<in>set vs. severity_ok v"
proof (induction rows arbitrary: acc)
  case Nil
  then show ?case by simp
next
  case (Cons row rows)
  show ?case
  proof (cases "threshold_severity (metric_value row) th")
    case (Inl e)
    with Cons.prems(1) show ?thesis by simp
  next
    case (Inr sev)
    let ?v = "\<lparr>tv_time = time row, tv_metric_name = name,
                 tv_metric_value = metric_value row, tv_metric_unit = metric_unit row,
                 threshold = th, severity = sev\<rparr>"
    from Inr Cons.prems(1) have rest: "violations_of_rows name th rows (acc @ [?v]) = Inr vs"
      by simp
    have "severity_ok ?v" using Inr by (simp add: severity_ok_def)
    with Cons.prems(2) have "\<forall>v\<in>set (acc @ [?v]). severity_ok v" by simp
    from Cons.IH[OF rest this] show ?thesis .
  qed
qed


lemma violations_of_thresholds_ok:
  "violations_of_thresholds d eid cutoff ths acc = Inr vs \<Longrightarrow> \<forall>v\<in>set acc. severity_ok v
     \<Longrightarrow> \<forall>v\<in>set vs. severity_ok v"
proof (induction ths arbitrary: acc)
  case Nil
  then show ?case by simp
next
  case (Cons p ths)
  obtain name th where p: "p = (name, th)" by (cases p)
  show ?case
  proof (cases "query_exceeding d eid name cutoff th")
    case (Inl e)
    with Cons.prems(1) p show ?thesis by simp
  next
    case q: (Inr rows)
    show ?thesis
    proof (cases "violations_of_rows name th rows acc")
      case (Inl e)
      with Cons.prems(1) p q show ?thesis by simp
    next
      case (Inr acc')
      with Cons.prems(1) p q have rest: "violations_of_thresholds d eid cutoff ths acc' = Inr vs"
        by simp
      from violations_of_rows_ok[OF Inr Cons.prems(2)] have "\<forall>v\<in>set acc'. severity_ok v" .
      from Cons.IH[OF rest this] show ?thesis .
    qed
  qed
qed

lemma check_thresholds_ok:
  assumes "v \<in> set (check_thresholds ev d eid lb)"
  shows "severity_ok v"
proof (cases "check_thresholds_try ev d eid lb")
  case (Inl e)
  with assms show ?thesis by (simp add: check_thresholds_def)
next
  case (Inr vs)
  with assms have v: "v \<in> set vs" by (simp add: check_thresholds_def)
  show ?thesis
  proof (cases "query_equipment d eid")
    case (Inl e)
    with Inr show ?thesis by (simp add: check_thresholds_try_def)
  next
    case q: (Inr r)
    show ?thesis
    proof (cases r)
      case None
      with q Inr v show ?thesis by (simp add: check_thresholds_try_def)
    next
      case (Some eq)
      with q Inr have
        "violations_of_thresholds d eid (utcnow ev - timedelta_minutes lb)
           (get_thresholds (config ev) (equipment_type_value (equipment_type eq))) [] = Inr vs"
        by (simp add: check_thresholds_try_def)
      from violations_of_thresholds_ok[OF this] v show ?thesis by simp
    qed
  qed
qed

lemma threshold_severity_Fin:
  assumes "threshold_severity (Fin x) t = Inr s"
  shows "t \<noteq> 0"
    and "double_round (x / t) = Fin r \<Longrightarrow>
          s = (if 2 < r then EMERGENCY else if 3 / 2 < r then CRITICAL
               else if 6 / 5 < r then WARNING else INFO)"
    and "double_round (x / t) = PosInf \<Longrightarrow> s = EMERGENCY"
    and "double_round (x / t) = NegInf \<Longrightarrow> s = INFO"
    and "double_round (x / t) \<noteq> NaN"
proof -
  from assms show t: "t \<noteq> 0"
    by (auto simp: threshold_severity_def truediv_def split: if_splits)
  with assms have s: "s = (if float_lt (Fin 2) (double_round (x / t)) then EMERGENCY
               else if float_lt (Fin (3 / 2)) (double_round (x / t)) then CRITICAL
               else if float_lt (Fin (6 / 5)) (double_round (x / t)) then WARNING
               else INFO)"
    by (simp add: threshold_severity_def truediv_def float_div_def)
  show "double_round (x / t) = Fin r \<Longrightarrow>
          s = (if 2 < r then EMERGENCY else if 3 / 2 < r then CRITICAL
               else if 6 / 5 < r then WARNING else INFO)"
    unfolding s by simp
  show "double_round (x / t) = PosInf \<Longrightarrow> s = EMERGENCY" unfolding s by simp
  show "double_round (x / t) = NegInf \<Longrightarrow> s = INFO" unfolding s by simp
  show "double_round (x / t) \<noteq> NaN"
    by (simp add: double_round_def split: prod.splits)
qed

lemma ex25: "threshold_severity (Fin 25) 10 = Inr EMERGENCY"
  by (simp add: threshold_severity_def truediv_def double_eval)

lemma ex_boundary:
  "double_round (5404319552844599 / 4503599627370499)
     = Fin (5404319552844595 / 4503599627370496)"
  "threshold_severity (Fin 5404319552844599) 4503599627370499 = Inr INFO"
  by (simp_all add: threshold_severity_def truediv_def double_eval)


text \<open>
  C7. Every violation that \<^verbatim>\<open>check_thresholds\<close> reports carries the severity that
  \<^verbatim>\<open>_threshold_severity\<close> gives for its value and threshold. For a finite value the
  ratio is the quotient value/threshold as the division of doubles returns it, compared
  strictly: above 2 emergency, above 1.5 critical, above 1.2 warning, otherwise info. A
  reading of 25 against the threshold 10 has ratio 2.5 and is an emergency; a quotient
  that rounds to the double 1.2 is info.
\<close>

theorem check_thresholds_severity:
  "(\<forall>v \<in> set (check_thresholds ev d eid lookback_minutes).
      threshold_severity (tv_metric_value v) (threshold v) = Inr (severity v)
      \<and> (\<forall>x. tv_metric_value v = Fin x \<longrightarrow>
            threshold v \<noteq> 0
            \<and> (\<forall>r. double_round (x / threshold v) = Fin r \<longrightarrow>
                  severity v =
                    (if 2 < r then EMERGENCY
                     else if 3 / 2 < r then CRITICAL
                     else if 6 / 5 < r then WARNING
                     else INFO))
            \<and> (double_round (x / threshold v) = PosInf \<longrightarrow> severity v = EMERGENCY)
            \<and> (double_round (x / threshold v) = NegInf \<longrightarrow> severity v = INFO)
            \<and> double_round (x / threshold v) \<noteq> NaN))
   \<and> double_round (25 / 10) = Fin (5 / 2)
   \<and> threshold_severity (Fin 25) 10 = Inr EMERGENCY
   \<and> threshold_severity (Fin 5404319552844599) 4503599627370499 = Inr INFO"
proof (intro conjI ballI allI impI)
  show "threshold_severity (Fin 25) 10 = Inr EMERGENCY" by (rule ex25)
  show "double_round (25 / 10) = Fin (5 / 2)" by (simp add: double_eval)
  show "threshold_severity (Fin 5404319552844599) 4503599627370499 = Inr INFO"
    by (rule ex_boundary(2))
next
  fix v assume "v \<in> set (check_thresholds ev d eid lookback_minutes)"
  then show "threshold_severity (tv_metric_value v) (threshold v) = Inr (severity v)"
    using check_thresholds_ok by (simp add: severity_ok_def)
next
  fix v x assume v: "v \<in> set (check_thresholds ev d eid lookback_minutes)"
    and x: "tv_metric_value v = Fin x"
  from check_thresholds_ok[OF v] x have
    ts: "threshold_severity (Fin x) (threshold v) = Inr (severity v)"
    by (simp add: severity_ok_def)
  show "threshold v \<noteq> 0" by (rule threshold_severity_Fin(1)[OF ts])
  show "double_round (x / threshold v) \<noteq> NaN" by (rule threshold_severity_Fin(5)[OF ts])
  {
    assume "double_round (x / threshold v) = PosInf"
    then show "severity v = EMERGENCY" by (rule threshold_severity_Fin(3)[OF ts])
  }
  {
    assume "double_round (x / threshold v) = NegInf"
    then show "severity v = INFO" by (rule threshold_severity_Fin(4)[OF ts])
  }
  {
    fix r assume "double_round (x / threshold v) = Fin r"
    then show "severity v =
                    (if 2 < r then EMERGENCY
                     else if 3 / 2 < r then CRITICAL
                     else if 6 / 5 < r then WARNING
                     else INFO)" by (rule threshold_severity_Fin(2)[OF ts])
  }
qed

lemma gas_check:
  "check_thresholds test_env gas_db ''GAS-001'' 30 =
     [\<lparr>tv_time = Naive 1000, tv_metric_name = ''gas_concentration'',
       tv_metric_value = Fin 25, tv_metric_unit = Some ''ppm'', threshold = 10,
       severity = EMERGENCY\<rparr>]"
  by (simp add: check_thresholds_def check_thresholds_try_def query_equipment_def raises_def
      gas_db_def test_env_def default_settings_def get_thresholds_def threshold_map_def
      query_exceeding_def timedelta_minutes_def instant_def threshold_severity_def truediv_def
      double_eval)

theorem check_thresholds_severity_witness:
  "\<exists>v \<in> set (check_thresholds test_env gas_db ''GAS-001'' 30).
      tv_metric_value v = Fin 25 \<and> threshold v = 10 \<and> severity v = EMERGENCY
      \<and> double_round (25 / threshold v) = Fin (5 / 2)
      \<and> threshold_severity (tv_metric_value v) (threshold v) = Inr (severity v)"
  using check_thresholds_severity[of test_env gas_db "''GAS-001''" 30]
  by (simp add: gas_check)

subsection \<open>Maintenance risk\<close>











subsection \<open>The ingestion pipeline, stage by stage\<close>

lemma accepted_of_Nil: "accepted_of ev d [] = []"
  by (simp add: accepted_of_def map_filter_simps)

lemma rejected_count_Nil: "rejected_count ev d [] = 0"
  by (simp add: rejected_count_def)

lemma stats_invalid_zero: "st\<lparr>invalid := invalid st + 0\<rparr> = st"
  by simp

lemma validate_loop_Inr:
  "validate_loop ev d rs st acc = (Inr vs, st') \<Longrightarrow>
     vs = acc @ accepted_of ev d rs
     \<and> st' = st\<lparr>invalid := invalid st + rejected_count ev d rs\<rparr>
     \<and> (\<forall>r\<in>set rs. \<not> aborts ev d r)"
proof (induction rs arbitrary: st acc)
  case Nil
  then show ?case by (simp add: accepted_of_Nil rejected_count_Nil)
next
  case (Cons r rs)
  show ?case
  proof (cases "validate_reading ev d r")
    case (Inl e)
    with Cons.prems show ?thesis by simp
  next
    case (Inr x)
    show ?thesis
    proof (cases x)
      case None
      with Inr Cons.prems have
        "validate_loop ev d rs (st\<lparr>invalid := invalid st + 1\<rparr>) acc = (Inr vs, st')"
        by simp
      from Cons.IH[OF this] None Inr show ?thesis
        by (simp add: accepted_of_def map_filter_simps accept_def rejected_count_def
            rejected_def aborts_def)
    next
      case (Some v)
      with Inr Cons.prems have "validate_loop ev d rs st (acc @ [v]) = (Inr vs, st')"
        by simp
      from Cons.IH[OF this] Some Inr show ?thesis
        by (simp add: accepted_of_def map_filter_simps accept_def rejected_count_def
            rejected_def aborts_def)
    qed
  qed
qed

lemma validate_loop_no_abort:
  "\<forall>r\<in>set rs. \<not> aborts ev d r \<Longrightarrow>
     validate_loop ev d rs st acc =
       (Inr (acc @ accepted_of ev d rs), st\<lparr>invalid := invalid st + rejected_count ev d rs\<rparr>)"
proof (induction rs arbitrary: st acc)
  case Nil
  then show ?case by (simp add: accepted_of_Nil rejected_count_Nil)
next
  case (Cons r rs)
  from Cons.prems have na: "\<not> aborts ev d r" and rest: "\<forall>r\<in>set rs. \<not> aborts ev d r"
    by simp_all
  show ?case
  proof (cases "validate_reading ev d r")
    case (Inl e)
    with na show ?thesis by (simp add: aborts_def)
  next
    case (Inr x)
    show ?thesis
    proof (cases x)
      case None
      with Inr Cons.IH[OF rest] show ?thesis
        by (simp add: accepted_of_def map_filter_simps accept_def rejected_count_def
            rejected_def)
    next
      case (Some v)
      with Inr Cons.IH[OF rest] show ?thesis
        by (simp add: accepted_of_def map_filter_simps accept_def rejected_count_def
            rejected_def)
    qed
  qed
qed

lemma validate_loop_abort:
  "\<exists>r\<in>set rs. aborts ev d r \<Longrightarrow> \<exists>e st'. validate_loop ev d rs st acc = (Inl e, st')"
proof (induction rs arbitrary: st acc)
  case Nil
  then show ?case by simp
next
  case (Cons r rs)
  show ?case
  proof (cases "validate_reading ev d r")
    case (Inl e)
    then show ?thesis by simp
  next
    case (Inr x)
    with Cons.prems have rest: "\<exists>r\<in>set rs. aborts ev d r" by (simp add: aborts_def)
    show ?thesis
    proof (cases x)
      case None
      with Inr Cons.IH[OF rest] show ?thesis by simp
    next
      case (Some v)
      with Inr Cons.IH[OF rest] show ?thesis by simp
    qed
  qed
qed

lemma comprehension_Inr:
  "comprehension p xs = Inr ys \<Longrightarrow>
     ys = filter (\<lambda>x. p x = Inr True) xs \<and> (\<forall>x\<in>set xs. \<exists>b. p x = Inr b)"
proof (induction xs arbitrary: ys)
  case Nil
  then show ?case by simp
next
  case (Cons x xs)
  from Cons.prems obtain b where b: "p x = Inr b"
    by (cases "p x") simp_all
  with Cons.prems obtain zs where zs: "comprehension p xs = Inr zs"
    by (cases "comprehension p xs") simp_all
  from Cons.prems b zs have ys: "ys = (if b then x # zs else zs)" by simp
  from Cons.IH[OF zs] b ys show ?case by auto
qed

lemma comprehension_total:
  "\<forall>x\<in>set xs. \<exists>b. p x = Inr b \<Longrightarrow> comprehension p xs = Inr (filter (\<lambda>x. p x = Inr True) xs)"
proof (induction xs)
  case Nil
  then show ?case by simp
next
  case (Cons x xs)
  then obtain b where b: "p x = Inr b" by auto
  from Cons have "comprehension p xs = Inr (filter (\<lambda>x. p x = Inr True) xs)" by simp
  with b show ?case by simp
qed

lemma ge_lt_Naive:
  "datetime_ge t (Naive c) = Inr b \<Longrightarrow> datetime_lt t (Naive c) = Inr (\<not> b)"
  by (cases t) auto

lemma check_timeliness_Inr:
  assumes "check_timeliness ev us = Inr (on_time, late)"
  shows "on_time = filter (is_on_time ev) us \<and> late = filter (is_late ev) us
     \<and> int (length on_time) + int (length late) = int (length us)"
proof (cases "us = []")
  case True
  with assms show ?thesis by (simp add: check_timeliness_def)
next
  case False
  let ?c = "utcnow ev - timedelta_minutes (MAX_LATE_ARRIVAL_MINUTES (config ev))"
  from assms False obtain a where a: "comprehension (\<lambda>r. datetime_ge (time r) (Naive ?c)) us = Inr a"
    by (cases "comprehension (\<lambda>r. datetime_ge (time r) (Naive ?c)) us")
       (simp_all add: check_timeliness_def Let_def)
  from assms False a obtain b where b: "comprehension (\<lambda>r. datetime_lt (time r) (Naive ?c)) us = Inr b"
    by (cases "comprehension (\<lambda>r. datetime_lt (time r) (Naive ?c)) us")
       (simp_all add: check_timeliness_def Let_def)
  from assms False a b have ab: "on_time = a" "late = b"
    by (simp_all add: check_timeliness_def Let_def)
  have eqa: "(\<lambda>r. datetime_ge (time r) (Naive ?c) = Inr True) = is_on_time ev"
    by (rule ext) (simp add: is_on_time_def cutoff_of_def)
  have eqb: "(\<lambda>r. datetime_lt (time r) (Naive ?c) = Inr True) = is_late ev"
    by (rule ext) (simp add: is_late_def cutoff_of_def)
  from comprehension_Inr[OF a] have
    a1: "a = filter (is_on_time ev) us" and
    a2: "\<forall>x\<in>set us. \<exists>b. datetime_ge (time x) (Naive ?c) = Inr b"
    unfolding eqa by blast+
  from comprehension_Inr[OF b] have
    b1: "b = filter (is_late ev) us"
    unfolding eqb by blast
  have "\<forall>x\<in>set us. is_late ev x = (\<not> is_on_time ev x)"
  proof
    fix x assume "x \<in> set us"
    with a2 obtain bb where bb: "datetime_ge (time x) (Naive ?c) = Inr bb" by auto
    from ge_lt_Naive[OF bb] bb show "is_late ev x = (\<not> is_on_time ev x)"
      by (simp add: is_late_def is_on_time_def cutoff_of_def)
  qed
  then have "filter (is_late ev) us = filter (\<lambda>x. \<not> is_on_time ev x) us"
    by (simp cong: filter_cong)
  then have "length (filter (is_on_time ev) us) + length (filter (is_late ev) us) = length us"
    by (simp add: sum_length_filter_compl)
  with ab a1 b1 show ?thesis by simp
qed

lemma deduplicate_eq:
  "deduplicate st vs =
     (drop_duplicates [] vs,
      st\<lparr>duplicates := duplicates st + (int (length vs) - int (length (drop_duplicates [] vs)))\<rparr>)"
  by (cases "vs = []") (simp_all add: deduplicate_def Let_def)

lemma validate_readings_Inr:
  assumes "validate_readings ev d st rs = (Inr vs, st1)"
  shows "vs = accepted_of ev d rs
     \<and> st1 = st\<lparr>invalid := invalid st + rejected_count ev d rs,
               total_processed := total_processed st + int (length rs)\<rparr>
     \<and> (\<forall>r\<in>set rs. \<not> aborts ev d r)"
proof -
  obtain x s where l: "validate_loop ev d rs st [] = (x, s)" by (cases "validate_loop ev d rs st []")
  show ?thesis
  proof (cases x)
    case (Inl e)
    with l assms show ?thesis by (simp add: validate_readings_def)
  next
    case (Inr ws)
    with l assms have ws: "ws = vs" and s: "st1 = s\<lparr>total_processed := total_processed s + int (length rs)\<rparr>"
      by (simp_all add: validate_readings_def)
    from l Inr have li: "validate_loop ev d rs st [] = (Inr ws, s)" by simp
    from validate_loop_Inr[OF li] have
      "ws = accepted_of ev d rs" "s = st\<lparr>invalid := invalid st + rejected_count ev d rs\<rparr>"
      "\<forall>r\<in>set rs. \<not> aborts ev d r" by simp_all
    with ws s show ?thesis by simp
  qed
qed

lemma ingest_batch_Success:
  assumes "ingest_batch ev st d rs = (Success c, st', d')"
  shows "(\<forall>r\<in>set rs. \<not> aborts ev d r)
     \<and> st' = stats_after ev d st rs
     \<and> c = \<lparr>total_received = int (length rs),
             total_inserted = int (length (on_time_of ev d rs)),
             invalid_count = invalid st + rejected_count ev d rs,
             duplicate_count = duplicates st + duplicates_in ev d rs,
             late_arrival_count = late_arrivals st + int (length (late_of ev d rs)),
             processing_time_ms = elapsed_ms ev\<rparr>
     \<and> int (length (on_time_of ev d rs)) + int (length (late_of ev d rs))
         = int (length (unique_of ev d rs))
     \<and> (\<exists>d1. (if on_time_of ev d rs \<noteq> [] then bulk_insert ev d (on_time_of ev d rs)
                else (None, d)) = (None, d1)
             \<and> d' = record_quality_metrics st' d1 (elapsed_ms ev))"
proof -
  obtain x st1 where v: "validate_readings ev d st rs = (x, st1)"
    by (cases "validate_readings ev d st rs")
  show ?thesis
  proof (cases x)
    case (Inl e)
    with v assms show ?thesis by (simp add: ingest_batch_def)
  next
    case (Inr vs)
    from v Inr have vi: "validate_readings ev d st rs = (Inr vs, st1)" by simp
    from validate_readings_Inr[OF vi] have
      vs: "vs = accepted_of ev d rs" and
      st1: "st1 = st\<lparr>invalid := invalid st + rejected_count ev d rs,
               total_processed := total_processed st + int (length rs)\<rparr>" and
      na: "\<forall>r\<in>set rs. \<not> aborts ev d r" by blast+
    let ?us = "drop_duplicates [] vs"
    let ?st2 = "st1\<lparr>duplicates := duplicates st1 + (int (length vs) - int (length ?us))\<rparr>"
    have dd: "deduplicate st1 vs = (?us, ?st2)" by (rule deduplicate_eq)
    show ?thesis
    proof (cases "check_timeliness ev ?us")
      case (Inl e)
      with v Inr dd assms show ?thesis by (simp add: ingest_batch_def)
    next
      case t: (Inr p)
      obtain on_time late where p: "p = (on_time, late)" by (cases p)
      from t p have tp: "check_timeliness ev ?us = Inr (on_time, late)" by simp
      from check_timeliness_Inr[OF tp] have
        ot: "on_time = filter (is_on_time ev) ?us" and lt: "late = filter (is_late ev) ?us"
        and len: "int (length on_time) + int (length late) = int (length ?us)" by blast+
      let ?st3 = "?st2\<lparr>late_arrivals := late_arrivals ?st2 + int (length late)\<rparr>"
      obtain eo d1 where b: "(if on_time \<noteq> [] then bulk_insert ev d on_time else (None, d)) = (eo, d1)"
        by (cases "(if on_time \<noteq> [] then bulk_insert ev d on_time else (None, d))")
      show ?thesis
      proof (cases eo)
        case (Some e)
        with v Inr dd t p b assms show ?thesis by (simp add: ingest_batch_def Let_def)
      next
        case None
        let ?c0 = "\<lparr>total_received = int (length rs),
                                total_inserted = int (length on_time),
                                invalid_count = invalid ?st3,
                                duplicate_count = duplicates ?st3,
                                late_arrival_count = late_arrivals ?st3,
                                processing_time_ms = elapsed_ms ev\<rparr>"
        from v Inr dd t p b None have ib:
          "ingest_batch ev st d rs =
             (Success ?c0, ?st3, record_quality_metrics ?st3 d1 (elapsed_ms ev))"
          by (simp add: ingest_batch_def Let_def)
        have "(Success c, st', d')
            = (Success ?c0, ?st3, record_quality_metrics ?st3 d1 (elapsed_ms ev))"
          by (rule trans[OF assms[symmetric] ib])
        then have c: "c = ?c0" and s: "st' = ?st3"
          and dq: "d' = record_quality_metrics ?st3 d1 (elapsed_ms ev)"
          by (simp_all only: prod.inject ingest_result.inject)
        have ot': "on_time = on_time_of ev d rs" and lt': "late = late_of ev d rs"
          and us': "?us = unique_of ev d rs"
          using ot lt vs by (simp_all add: on_time_of_def late_of_def unique_of_def)
        have st3: "?st3 = stats_after ev d st rs"
          using st1 vs lt' us' by (simp add: stats_after_def duplicates_in_def)
        have c': "c = \<lparr>total_received = int (length rs),
             total_inserted = int (length (on_time_of ev d rs)),
             invalid_count = invalid st + rejected_count ev d rs,
             duplicate_count = duplicates st + duplicates_in ev d rs,
             late_arrival_count = late_arrivals st + int (length (late_of ev d rs)),
             processing_time_ms = elapsed_ms ev\<rparr>"
          using c st1 vs lt' us' ot' by (simp add: duplicates_in_def)
        from b None ot' have b': "(if on_time_of ev d rs \<noteq> [] then bulk_insert ev d (on_time_of ev d rs)
                else (None, d)) = (None, d1)" by (auto split: if_splits)
        from na s st3 c' len ot' lt' us' b' dq show ?thesis by auto
      qed
    qed
  qed
qed

lemma check_timeliness_naive:
  assumes "\<forall>v\<in>set us. \<exists>t. time v = Naive t"
  shows "check_timeliness ev us = Inr (filter (is_on_time ev) us, filter (is_late ev) us)"
proof (cases "us = []")
  case True
  then show ?thesis by (simp add: check_timeliness_def)
next
  case False
  let ?c = "utcnow ev - timedelta_minutes (MAX_LATE_ARRIVAL_MINUTES (config ev))"
  have eqa: "(\<lambda>r. datetime_ge (time r) (Naive ?c) = Inr True) = is_on_time ev"
    by (rule ext) (simp add: is_on_time_def cutoff_of_def)
  have eqb: "(\<lambda>r. datetime_lt (time r) (Naive ?c) = Inr True) = is_late ev"
    by (rule ext) (simp add: is_late_def cutoff_of_def)
  from assms have "\<forall>x\<in>set us. \<exists>b. datetime_ge (time x) (Naive ?c) = Inr b" by auto
  from comprehension_total[OF this] have
    a: "comprehension (\<lambda>r. datetime_ge (time r) (Naive ?c)) us = Inr (filter (is_on_time ev) us)"
    unfolding eqa .
  from assms have "\<forall>x\<in>set us. \<exists>b. datetime_lt (time x) (Naive ?c) = Inr b" by auto
  from comprehension_total[OF this] have
    b: "comprehension (\<lambda>r. datetime_lt (time r) (Naive ?c)) us = Inr (filter (is_late ev) us)"
    unfolding eqb .
  from False a b show ?thesis by (simp add: check_timeliness_def Let_def)
qed

lemma validate_readings_no_abort:
  assumes "\<forall>r\<in>set rs. \<not> aborts ev d r"
  shows "validate_readings ev d st rs =
     (Inr (accepted_of ev d rs),
      st\<lparr>invalid := invalid st + rejected_count ev d rs,
         total_processed := total_processed st + int (length rs)\<rparr>)"
  using validate_loop_no_abort[OF assms, of st "[]"]
  by (simp add: validate_readings_def)

lemma ingest_batch_run:
  assumes na: "\<forall>r\<in>set rs. \<not> aborts ev d r"
    and naive: "\<forall>v\<in>set (unique_of ev d rs). \<exists>t. time v = Naive t"
    and ins: "(if on_time_of ev d rs \<noteq> [] then bulk_insert ev d (on_time_of ev d rs)
               else (None, d)) = (None, d1)"
  shows "ingest_batch ev st d rs =
     (Success \<lparr>total_received = int (length rs),
               total_inserted = int (length (on_time_of ev d rs)),
               invalid_count = invalid st + rejected_count ev d rs,
               duplicate_count = duplicates st + duplicates_in ev d rs,
               late_arrival_count = late_arrivals st + int (length (late_of ev d rs)),
               processing_time_ms = elapsed_ms ev\<rparr>,
      stats_after ev d st rs,
      record_quality_metrics (stats_after ev d st rs) d1 (elapsed_ms ev))"
proof -
  let ?vs = "accepted_of ev d rs"
  let ?st1 = "st\<lparr>invalid := invalid st + rejected_count ev d rs,
         total_processed := total_processed st + int (length rs)\<rparr>"
  let ?us = "drop_duplicates [] ?vs"
  let ?st2 = "?st1\<lparr>duplicates := duplicates ?st1 + (int (length ?vs) - int (length ?us))\<rparr>"
  have v: "validate_readings ev d st rs = (Inr ?vs, ?st1)"
    by (rule validate_readings_no_abort[OF na])
  have dd: "deduplicate ?st1 ?vs = (?us, ?st2)" by (rule deduplicate_eq)
  from naive have "\<forall>v\<in>set ?us. \<exists>t. time v = Naive t" by (simp add: unique_of_def)
  from check_timeliness_naive[OF this] have
    t: "check_timeliness ev ?us = Inr (on_time_of ev d rs, late_of ev d rs)"
    by (simp add: on_time_of_def late_of_def unique_of_def)
  have st3: "?st2\<lparr>late_arrivals := late_arrivals ?st2 + int (length (late_of ev d rs))\<rparr>
      = stats_after ev d st rs"
    by (simp add: stats_after_def duplicates_in_def unique_of_def)
  show ?thesis
    by (simp only: ingest_batch_def v dd t prod.case sum.case Let_def st3 ins option.case)
       (simp add: stats_after_def)
qed

lemma accounting_validation:
  "\<forall>r\<in>set rs. \<not> aborts ev d r \<Longrightarrow>
     int (length rs) = rejected_count ev d rs + int (length (accepted_of ev d rs))"
proof (induction rs)
  case Nil
  then show ?case by (simp add: rejected_count_def accepted_of_def map_filter_simps)
next
  case (Cons r rs)
  then have ih: "int (length rs) = rejected_count ev d rs + int (length (accepted_of ev d rs))"
    and na: "\<not> aborts ev d r" by simp_all
  show ?case
  proof (cases "validate_reading ev d r")
    case (Inl e)
    with na show ?thesis by (simp add: aborts_def)
  next
    case (Inr x)
    with ih show ?thesis
      by (cases x)
         (simp_all add: rejected_count_def accepted_of_def map_filter_simps accept_def
            rejected_def)
  qed
qed

lemma ingest_batch_accounting:
  assumes "ingest_batch ev st d rs = (Success c, st', d')"
  shows "total_received c =
     total_inserted c + (invalid_count c - invalid st) + (duplicate_count c - duplicates st)
       + (late_arrival_count c - late_arrivals st)"
proof -
  from ingest_batch_Success[OF assms] have
    na: "\<forall>r\<in>set rs. \<not> aborts ev d r" and
    c: "c = \<lparr>total_received = int (length rs),
             total_inserted = int (length (on_time_of ev d rs)),
             invalid_count = invalid st + rejected_count ev d rs,
             duplicate_count = duplicates st + duplicates_in ev d rs,
             late_arrival_count = late_arrivals st + int (length (late_of ev d rs)),
             processing_time_ms = elapsed_ms ev\<rparr>" and
    len: "int (length (on_time_of ev d rs)) + int (length (late_of ev d rs))
         = int (length (unique_of ev d rs))" by blast+
  from accounting_validation[OF na] len show ?thesis
    unfolding c by (simp add: duplicates_in_def)
qed

subsection \<open>Evaluation of the fixtures\<close>

lemmas ingest_defs =
  ingest_batch_def validate_readings_def validate_reading_def has_required_fields_def
  parse_timestamp_def is_value_reasonable_def ranges_def query_equipment_def raises_def
  caught_def normalised_def deduplicate_def natural_key_def check_timeliness_def
  bulk_insert_def execute_insert_def insert_row_def record_quality_metrics_def
  timedelta_minutes_def timedelta_hours_def init_stats_def default_settings_def
  test_db_def ingest_env_def mk_reading_def chunks.simps Let_def

lemma late_eval:
  "ingest_batch ingest_env init_stats test_db [late_reading] =
     (Success \<lparr>total_received = 1, total_inserted = 0, invalid_count = 0, duplicate_count = 0,
               late_arrival_count = 1, processing_time_ms = 3\<rparr>,
      \<lparr>total_processed = 1, invalid = 0, duplicates = 0, late_arrivals = 1\<rparr>,
      test_db\<lparr>data_quality_metrics :=
        [\<lparr>total_records_processed = 1, invalid_records = 0, duplicate_records = 0,
          late_arriving_records = 1, qm_processing_time_ms = 3, pipeline_stage = ''ingestion'',
          duplicate_rate = double_round 0, invalid_rate = double_round 0\<rparr>]\<rparr>)"
  by (simp add: ingest_defs late_reading_def)

lemma good_eval:
  "ingest_batch ingest_env init_stats test_db [good_reading] =
     (Success \<lparr>total_received = 1, total_inserted = 1, invalid_count = 0, duplicate_count = 0,
               late_arrival_count = 0, processing_time_ms = 3\<rparr>,
      \<lparr>total_processed = 1, invalid = 0, duplicates = 0, late_arrivals = 0\<rparr>,
      test_db\<lparr>sensor_readings :=
        [\<lparr>time = Naive 10000000000, equipment_id = ''TEST-001'',
          metric_name = ''gas_concentration'', metric_value = Fin 5, metric_unit = None,
          reading_status = ''normal'', metadata = []\<rparr>],
       data_quality_metrics :=
        [\<lparr>total_records_processed = 1, invalid_records = 0, duplicate_records = 0,
          late_arriving_records = 0, qm_processing_time_ms = 3, pipeline_stage = ''ingestion'',
          duplicate_rate = double_round 0, invalid_rate = double_round 0\<rparr>]\<rparr>)"
  by (simp add: ingest_defs good_reading_def)





lemma py_float_Inl: "py_float p mv = Inl e \<Longrightarrow> caught e = (e \<noteq> OverflowError)"
  by (cases mv) (auto simp: caught_def split: if_splits option.splits)










lemma check_timeliness_Inr_naive:
  assumes "check_timeliness ev us = Inr p"
  shows "\<forall>v\<in>set us. \<exists>t. time v = Naive t"
proof (cases "us = []")
  case True
  then show ?thesis by simp
next
  case False
  let ?c = "utcnow ev - timedelta_minutes (MAX_LATE_ARRIVAL_MINUTES (config ev))"
  from assms False obtain a where a: "comprehension (\<lambda>r. datetime_ge (time r) (Naive ?c)) us = Inr a"
    by (cases "comprehension (\<lambda>r. datetime_ge (time r) (Naive ?c)) us")
       (simp_all add: check_timeliness_def Let_def)
  from comprehension_Inr[OF a] have
    "\<forall>x\<in>set us. \<exists>b. datetime_ge (time x) (Naive ?c) = Inr b" by blast
  then show ?thesis
  proof (intro ballI)
    fix v assume "v \<in> set us"
    with \<open>\<forall>x\<in>set us. \<exists>b. datetime_ge (time x) (Naive ?c) = Inr b\<close>
    obtain b where "datetime_ge (time v) (Naive ?c) = Inr b" by blast
    then show "\<exists>t. time v = Naive t" by (cases "time v") simp_all
  qed
qed

lemma ingest_batch_Success_naive:
  assumes "ingest_batch ev st d rs = (Success c, st', d')"
  shows "\<forall>v\<in>set (unique_of ev d rs). \<exists>t. time v = Naive t"
proof -
  obtain x st1 where v: "validate_readings ev d st rs = (x, st1)"
    by (cases "validate_readings ev d st rs")
  show ?thesis
  proof (cases x)
    case (Inl e)
    with v assms show ?thesis by (simp add: ingest_batch_def)
  next
    case (Inr vs)
    from v Inr have vi: "validate_readings ev d st rs = (Inr vs, st1)" by simp
    from validate_readings_Inr[OF vi] have vs: "vs = accepted_of ev d rs" by blast
    let ?us = "drop_duplicates [] vs"
    have dd: "deduplicate st1 vs = (?us, snd (deduplicate st1 vs))"
      by (simp add: deduplicate_eq)
    show ?thesis
    proof (cases "check_timeliness ev ?us")
      case (Inl e)
      with v Inr dd assms show ?thesis by (simp add: ingest_batch_def deduplicate_eq)
    next
      case t: (Inr p)
      from check_timeliness_Inr_naive[OF t] vs show ?thesis by (simp add: unique_of_def)
    qed
  qed
qed

lemma unparseable_not_accepted:
  assumes "unparseable_time ev r"
  shows "accept ev d r = None"
    and "validate_reading ev d r = Inr None \<or> validate_reading ev d r = Inl OverflowError"
proof -
  from assms obtain s where t: "in_time r = Some (TStr s)" and n: "fromisoformat ev (replace_Z s) = None"
    by (auto simp: unparseable_time_def split: option.splits tval.splits)
  then have pt: "parse_timestamp ev (the (in_time r)) = Inl ValueError"
    by (simp add: parse_timestamp_def)
  have c: "caught ValueError" by (simp add: caught_def)
  have "validate_reading ev d r = Inr None \<or> validate_reading ev d r = Inl OverflowError"
  proof (cases "has_required_fields r")
    case False
    then show ?thesis by (simp add: validate_reading_def)
  next
    case True
    show ?thesis
    proof (cases "py_float (str_to_float ev) (the (in_metric_value r))")
      case (Inl e)
      from py_float_Inl[OF Inl] True Inl show ?thesis
        by (cases "e = OverflowError") (simp_all add: validate_reading_def)
    next
      case (Inr v)
      with True pt c show ?thesis by (simp add: validate_reading_def)
    qed
  qed
  then show "validate_reading ev d r = Inr None \<or> validate_reading ev d r = Inl OverflowError" .
  then show "accept ev d r = None" by (auto simp: accept_def)
qed

lemma accepted_of_filter:
  "accepted_of ev d (filter (\<lambda>r. \<not> unparseable_time ev r) rs) = accepted_of ev d rs"
proof (induction rs)
  case Nil
  then show ?case by simp
next
  case (Cons r rs)
  then show ?case
    by (cases "unparseable_time ev r")
       (simp_all add: accepted_of_def map_filter_simps unparseable_not_accepted(1)
          split: option.splits)
qed

lemma rejected_count_filter:
  "\<forall>r\<in>set rs. \<not> aborts ev d r \<Longrightarrow>
     rejected_count ev d rs =
       rejected_count ev d (filter (\<lambda>r. \<not> unparseable_time ev r) rs)
         + int (length (filter (unparseable_time ev) rs))"
proof (induction rs)
  case Nil
  then show ?case by (simp add: rejected_count_def)
next
  case (Cons r rs)
  then have ih: "rejected_count ev d rs =
       rejected_count ev d (filter (\<lambda>r. \<not> unparseable_time ev r) rs)
         + int (length (filter (unparseable_time ev) rs))" and na: "\<not> aborts ev d r"
    by simp_all
  show ?case
  proof (cases "unparseable_time ev r")
    case True
    from unparseable_not_accepted(2)[OF True, of d] na have "rejected ev d r"
      by (auto simp: rejected_def aborts_def)
    with True ih show ?thesis by (simp add: rejected_count_def)
  next
    case False
    with ih show ?thesis by (simp add: rejected_count_def)
  qed
qed

lemma record_quality_metrics_readings:
  "sensor_readings (record_quality_metrics s d t) = sensor_readings d"
  by (simp add: record_quality_metrics_def Let_def)

lemma unparseable_excluded_on_success:
  assumes ok: "ingest_batch ev st d rs = (Success c, st', d')"
  shows "(\<forall>r\<in>set rs. unparseable_time ev r \<longrightarrow> validate_reading ev d r = Inr None)
     \<and> (\<exists>c0 st0 d0.
           ingest_batch ev st d (filter (\<lambda>r. \<not> unparseable_time ev r) rs) = (Success c0, st0, d0)
           \<and> sensor_readings d0 = sensor_readings d'
           \<and> total_inserted c0 = total_inserted c
           \<and> duplicate_count c0 = duplicate_count c
           \<and> late_arrival_count c0 = late_arrival_count c
           \<and> invalid_count c = invalid_count c0 + int (length (filter (unparseable_time ev) rs)))"
proof -
  let ?good = "filter (\<lambda>r. \<not> unparseable_time ev r) rs"
  from ingest_batch_Success[OF ok] obtain d1 where
    na: "\<forall>r\<in>set rs. \<not> aborts ev d r" and
    c: "c = \<lparr>total_received = int (length rs),
             total_inserted = int (length (on_time_of ev d rs)),
             invalid_count = invalid st + rejected_count ev d rs,
             duplicate_count = duplicates st + duplicates_in ev d rs,
             late_arrival_count = late_arrivals st + int (length (late_of ev d rs)),
             processing_time_ms = elapsed_ms ev\<rparr>" and
    ins: "(if on_time_of ev d rs \<noteq> [] then bulk_insert ev d (on_time_of ev d rs)
                else (None, d)) = (None, d1)" and
    d': "d' = record_quality_metrics st' d1 (elapsed_ms ev)" by blast
  have first: "\<forall>r\<in>set rs. unparseable_time ev r \<longrightarrow> validate_reading ev d r = Inr None"
  proof (intro ballI impI)
    fix r assume "r \<in> set rs" "unparseable_time ev r"
    with na unparseable_not_accepted(2)[of ev r d] show "validate_reading ev d r = Inr None"
      by (auto simp: aborts_def)
  qed
  have acc: "accepted_of ev d ?good = accepted_of ev d rs" by (rule accepted_of_filter)
  then have u: "unique_of ev d ?good = unique_of ev d rs"
    and o: "on_time_of ev d ?good = on_time_of ev d rs"
    and l: "late_of ev d ?good = late_of ev d rs"
    and du: "duplicates_in ev d ?good = duplicates_in ev d rs"
    by (simp_all add: unique_of_def on_time_of_def late_of_def duplicates_in_def)
  from na have na': "\<forall>r\<in>set ?good. \<not> aborts ev d r" by simp
  from ingest_batch_Success_naive[OF ok] u
  have naive: "\<forall>v\<in>set (unique_of ev d ?good). \<exists>t. time v = Naive t" by simp
  from ins o have ins': "(if on_time_of ev d ?good \<noteq> [] then bulk_insert ev d (on_time_of ev d ?good)
               else (None, d)) = (None, d1)" by (simp only: o)
  note run = ingest_batch_run[OF na' naive ins', of st]
  have "sensor_readings (record_quality_metrics (stats_after ev d st ?good) d1 (elapsed_ms ev))
      = sensor_readings d'"
    unfolding d' by (simp add: record_quality_metrics_readings)
  with run c o l du rejected_count_filter[OF na] first show ?thesis
    by simp
qed


lemma unparseable_rejected:
  assumes u: "unparseable_time ev r" and nov: "\<not> float_overflows ev r"
  shows "validate_reading ev d r = Inr None"
proof (cases "has_required_fields r")
  case False
  then show ?thesis by (simp add: validate_reading_def)
next
  case True
  then obtain mv where mv: "in_metric_value r = Some mv"
    by (auto simp: has_required_fields_def)
  from u obtain s where "in_time r = Some (TStr s)" "fromisoformat ev (replace_Z s) = None"
    by (auto simp: unparseable_time_def split: option.splits tval.splits)
  then have pt: "parse_timestamp ev (the (in_time r)) = Inl ValueError"
    by (simp add: parse_timestamp_def)
  have c: "caught ValueError" by (simp add: caught_def)
  show ?thesis
  proof (cases "py_float (str_to_float ev) mv")
    case (Inl e)
    with nov mv have "e \<noteq> OverflowError" by (simp add: float_overflows_def)
    with py_float_Inl[OF Inl] True mv Inl show ?thesis by (simp add: validate_reading_def)
  next
    case (Inr v)
    with True mv pt c show ?thesis by (simp add: validate_reading_def)
  qed
qed

lemma unparseable_never_fails:
  assumes nov: "\<forall>r\<in>set rs. unparseable_time ev r \<longrightarrow> \<not> float_overflows ev r"
    and ok0: "ingest_batch ev st d (filter (\<lambda>r. \<not> unparseable_time ev r) rs)
               = (Success c0, st0, d0)"
  shows "\<exists>c st' d'. ingest_batch ev st d rs = (Success c, st', d')
     \<and> sensor_readings d' = sensor_readings d0
     \<and> total_inserted c = total_inserted c0
     \<and> invalid_count c = invalid_count c0 + int (length (filter (unparseable_time ev) rs))"
proof -
  let ?good = "filter (\<lambda>r. \<not> unparseable_time ev r) rs"
  from ingest_batch_Success[OF ok0] obtain d1 where
    na0: "\<forall>r\<in>set ?good. \<not> aborts ev d r" and
    c0: "c0 = \<lparr>total_received = int (length ?good),
             total_inserted = int (length (on_time_of ev d ?good)),
             invalid_count = invalid st + rejected_count ev d ?good,
             duplicate_count = duplicates st + duplicates_in ev d ?good,
             late_arrival_count = late_arrivals st + int (length (late_of ev d ?good)),
             processing_time_ms = elapsed_ms ev\<rparr>" and
    ins0: "(if on_time_of ev d ?good \<noteq> [] then bulk_insert ev d (on_time_of ev d ?good)
                else (None, d)) = (None, d1)" and
    d0: "d0 = record_quality_metrics st0 d1 (elapsed_ms ev)" by blast
  have na: "\<forall>r\<in>set rs. \<not> aborts ev d r"
  proof
    fix r assume r: "r \<in> set rs"
    show "\<not> aborts ev d r"
    proof (cases "unparseable_time ev r")
      case True
      with nov r have "\<not> float_overflows ev r" by blast
      from unparseable_rejected[OF True this] show ?thesis by (simp add: aborts_def)
    next
      case False
      with r na0 show ?thesis by simp
    qed
  qed
  have acc: "accepted_of ev d ?good = accepted_of ev d rs" by (rule accepted_of_filter)
  then have u: "unique_of ev d ?good = unique_of ev d rs"
    and o: "on_time_of ev d ?good = on_time_of ev d rs"
    by (simp_all add: unique_of_def on_time_of_def)
  from ingest_batch_Success_naive[OF ok0] u
  have naive: "\<forall>v\<in>set (unique_of ev d rs). \<exists>t. time v = Naive t" by simp
  from ins0 have ins: "(if on_time_of ev d rs \<noteq> [] then bulk_insert ev d (on_time_of ev d rs)
               else (None, d)) = (None, d1)" by (simp only: o)
  note run = ingest_batch_run[OF na naive ins, of st]
  have "sensor_readings (record_quality_metrics (stats_after ev d st rs) d1 (elapsed_ms ev))
      = sensor_readings d0"
    unfolding d0 by (simp add: record_quality_metrics_readings)
  with run c0 o rejected_count_filter[OF na] show ?thesis by simp
qed

text \<open>
  C10 (amended). A reading whose time is a string that does not parse, and whose metric
  value does not make \<^verbatim>\<open>float()\<close> overflow, is counted invalid and skipped by validation,
  whatever the store does: the \<^verbatim>\<open>ValueError\<close> of the parser never leaves the loop. Such
  readings never make a call fail: when the batch without them succeeds, the batch with
  them succeeds, writes the same rows and returns invalid_count larger by their number.
  In every call that returns success, every reading with an unparseable time is counted
  invalid and excluded. When \<^verbatim>\<open>float()\<close> overflows, the \<^verbatim>\<open>OverflowError\<close> is the only
  exception such a reading lets escape.
\<close>

theorem unparseable_time_counted_invalid:
  "(unparseable_time ev r \<and> \<not> float_overflows ev r \<longrightarrow> validate_reading ev d r = Inr None)
   \<and> (unparseable_time ev r \<longrightarrow>
        validate_reading ev d r = Inr None \<or> validate_reading ev d r = Inl OverflowError)
   \<and> ((\<forall>r\<in>set rs. unparseable_time ev r \<longrightarrow> \<not> float_overflows ev r)
        \<and> ingest_batch ev st d (filter (\<lambda>r. \<not> unparseable_time ev r) rs)
             = (Success c0, st0, d0) \<longrightarrow>
        (\<exists>c st' d'. ingest_batch ev st d rs = (Success c, st', d')
           \<and> sensor_readings d' = sensor_readings d0
           \<and> total_inserted c = total_inserted c0
           \<and> invalid_count c = invalid_count c0
                 + int (length (filter (unparseable_time ev) rs))))
   \<and> (ingest_batch ev st d rs = (Success c, st', d') \<longrightarrow>
        (\<forall>r\<in>set rs. unparseable_time ev r \<longrightarrow> validate_reading ev d r = Inr None)
        \<and> (\<exists>c0 st0 d0.
              ingest_batch ev st d (filter (\<lambda>r. \<not> unparseable_time ev r) rs)
                = (Success c0, st0, d0)
              \<and> sensor_readings d0 = sensor_readings d'
              \<and> total_inserted c0 = total_inserted c
              \<and> duplicate_count c0 = duplicate_count c
              \<and> late_arrival_count c0 = late_arrival_count c
              \<and> invalid_count c = invalid_count c0
                    + int (length (filter (unparseable_time ev) rs))))"
proof (intro conjI)
  show "unparseable_time ev r \<and> \<not> float_overflows ev r \<longrightarrow> validate_reading ev d r = Inr None"
    using unparseable_rejected by blast
  show "unparseable_time ev r \<longrightarrow>
        validate_reading ev d r = Inr None \<or> validate_reading ev d r = Inl OverflowError"
    using unparseable_not_accepted(2) by blast
  show "(\<forall>r\<in>set rs. unparseable_time ev r \<longrightarrow> \<not> float_overflows ev r)
        \<and> ingest_batch ev st d (filter (\<lambda>r. \<not> unparseable_time ev r) rs)
             = (Success c0, st0, d0) \<longrightarrow>
        (\<exists>c st' d'. ingest_batch ev st d rs = (Success c, st', d')
           \<and> sensor_readings d' = sensor_readings d0
           \<and> total_inserted c = total_inserted c0
           \<and> invalid_count c = invalid_count c0
                 + int (length (filter (unparseable_time ev) rs)))"
    using unparseable_never_fails by blast
  show "ingest_batch ev st d rs = (Success c, st', d') \<longrightarrow>
        (\<forall>r\<in>set rs. unparseable_time ev r \<longrightarrow> validate_reading ev d r = Inr None)
        \<and> (\<exists>c0 st0 d0.
              ingest_batch ev st d (filter (\<lambda>r. \<not> unparseable_time ev r) rs)
                = (Success c0, st0, d0)
              \<and> sensor_readings d0 = sensor_readings d'
              \<and> total_inserted c0 = total_inserted c
              \<and> duplicate_count c0 = duplicate_count c
              \<and> late_arrival_count c0 = late_arrival_count c
              \<and> invalid_count c = invalid_count c0
                    + int (length (filter (unparseable_time ev) rs)))"
    using unparseable_excluded_on_success by blast
qed

lemma mixed_eval:
  "ingest_batch ingest_env init_stats test_db [good_reading, bad_time_reading] =
     (Success \<lparr>total_received = 2, total_inserted = 1, invalid_count = 1, duplicate_count = 0,
               late_arrival_count = 0, processing_time_ms = 3\<rparr>,
      \<lparr>total_processed = 2, invalid = 1, duplicates = 0, late_arrivals = 0\<rparr>,
      test_db\<lparr>sensor_readings :=
        [\<lparr>time = Naive 10000000000, equipment_id = ''TEST-001'',
          metric_name = ''gas_concentration'', metric_value = Fin 5, metric_unit = None,
          reading_status = ''normal'', metadata = []\<rparr>],
       data_quality_metrics :=
        [\<lparr>total_records_processed = 2, invalid_records = 1, duplicate_records = 0,
          late_arriving_records = 0, qm_processing_time_ms = 3, pipeline_stage = ''ingestion'',
          duplicate_rate = double_round 0, invalid_rate = double_round (1 / 2)\<rparr>]\<rparr>)"
  by (simp add: ingest_defs good_reading_def bad_time_reading_def)

lemma bad_time_facts:
  "unparseable_time ingest_env bad_time_reading"
  "\<not> unparseable_time ingest_env good_reading"
  by (simp_all add: unparseable_time_def bad_time_reading_def good_reading_def mk_reading_def
      ingest_env_def)

lemma bad_time_no_overflow: "\<not> float_overflows ingest_env bad_time_reading"
  by (simp add: float_overflows_def bad_time_reading_def mk_reading_def)

theorem unparseable_time_counted_invalid_witness:
  "unparseable_time ingest_env bad_time_reading
   \<and> \<not> float_overflows ingest_env bad_time_reading
   \<and> validate_reading ingest_env test_db bad_time_reading = Inr None
   \<and> (\<exists>c st' d'.
          ingest_batch ingest_env init_stats test_db [good_reading, bad_time_reading]
            = (Success c, st', d')
          \<and> invalid_count c = 1 \<and> total_inserted c = 1
          \<and> (\<exists>c0 st0 d0.
                ingest_batch ingest_env init_stats test_db [good_reading] = (Success c0, st0, d0)
                \<and> sensor_readings d0 = sensor_readings d' \<and> total_inserted c0 = total_inserted c
                \<and> invalid_count c = invalid_count c0 + 1))"
proof -
  note t = unparseable_time_counted_invalid[of ingest_env bad_time_reading test_db
      "[good_reading, bad_time_reading]" init_stats]
  from t bad_time_facts(1) bad_time_no_overflow
  have rej: "validate_reading ingest_env test_db bad_time_reading = Inr None" by blast
  from bad_time_facts bad_time_no_overflow rej mixed_eval good_eval show ?thesis
    by simp
qed

theorem unparseable_time_counterexample:
  "unparseable_time ingest_env huge_bad_reading
   \<and> validate_reading ingest_env test_db huge_bad_reading = Inl OverflowError
   \<and> ingest_batch ingest_env init_stats test_db [huge_bad_reading]
       = (Failure OverflowError 1, init_stats, test_db)"
  by (simp add: ingest_defs huge_bad_reading_def unparseable_time_def float_overflow_bound_def)

subsection \<open>Deduplication\<close>

lemma drop_duplicates_keys:
  "natural_key ` set (drop_duplicates seen vs) = natural_key ` set vs - set seen"
  by (induction vs arbitrary: seen) auto

lemma drop_duplicates_distinct: "distinct (map natural_key (drop_duplicates seen vs))"
proof (induction vs arbitrary: seen)
  case Nil
  then show ?case by simp
next
  case (Cons v vs)
  have "natural_key v \<notin> natural_key ` set (drop_duplicates (natural_key v # seen) vs)"
    unfolding drop_duplicates_keys by simp
  with Cons show ?case by simp
qed

lemma drop_duplicates_subseq: "subseq (drop_duplicates seen vs) vs"
  by (induction vs arbitrary: seen) auto

lemma drop_duplicates_first:
  "u \<in> set (drop_duplicates seen vs) \<Longrightarrow>
     find (\<lambda>v. natural_key v = natural_key u) vs = Some u"
proof (induction vs arbitrary: seen)
  case Nil
  then show ?case by simp
next
  case (Cons v vs)
  show ?case
  proof (cases "natural_key v \<in> set seen")
    case True
    with Cons.prems have u: "u \<in> set (drop_duplicates seen vs)" by simp
    then have "natural_key u \<in> natural_key ` set (drop_duplicates seen vs)" by blast
    then have "natural_key u \<notin> set seen" unfolding drop_duplicates_keys by simp
    with True have "natural_key v \<noteq> natural_key u" by auto
    with Cons.IH[OF u] show ?thesis by simp
  next
    case False
    show ?thesis
    proof (cases "u = v")
      case True
      then show ?thesis by simp
    next
      case ne: False
      with False Cons.prems have u: "u \<in> set (drop_duplicates (natural_key v # seen) vs)"
        by simp
      then have "natural_key u \<in> natural_key ` set (drop_duplicates (natural_key v # seen) vs)"
        by blast
      then have "natural_key u \<noteq> natural_key v" unfolding drop_duplicates_keys by auto
      with Cons.IH[OF u] show ?thesis by simp
    qed
  qed
qed

lemma execute_insert_ok:
  "\<not> raises d InsertReadings \<Longrightarrow>
     \<exists>d'. execute_insert d c = Inr d' \<and> \<not> raises d' InsertReadings"
  by (simp add: execute_insert_def raises_def)

lemma insert_chunks_ok:
  "\<not> raises d InsertReadings \<Longrightarrow> \<exists>d'. insert_chunks d cs = (None, d')"
proof (induction cs arbitrary: d)
  case Nil
  then show ?case by simp
next
  case (Cons c cs)
  from execute_insert_ok[OF Cons.prems] obtain d1 where
    e: "execute_insert d c = Inr d1" and r: "\<not> raises d1 InsertReadings" by blast
  from Cons.IH[OF r] e show ?case by simp
qed

lemma bulk_insert_ok:
  assumes "\<not> raises d InsertReadings" "MAX_BATCH_SIZE (config ev) \<noteq> 0"
  shows "\<exists>d'. bulk_insert ev d xs = (None, d')"
  using assms insert_chunks_ok[OF assms(1)]
  by (simp add: bulk_insert_def Let_def)

lemma natural_key_fields:
  "natural_key = (\<lambda>v. (equipment_id v, metric_name v, time v))"
  "(natural_key v = natural_key u)
     = (equipment_id v = equipment_id u \<and> metric_name v = metric_name u \<and> time v = time u)"
  by (rule ext) (simp_all add: natural_key_def)

lemma two_duplicates_batch:
  assumes v1: "validate_reading ev d r1 = Inr (Some v1)"
    and v2: "validate_reading ev d r2 = Inr (Some v2)"
    and key: "equipment_id v1 = equipment_id v2 \<and> metric_name v1 = metric_name v2
              \<and> time v1 = time v2"
    and t: "time v1 = Naive t"
    and on_time: "utcnow ev - timedelta_minutes (MAX_LATE_ARRIVAL_MINUTES (config ev)) \<le> t"
    and store: "\<not> raises d InsertReadings" "MAX_BATCH_SIZE (config ev) \<noteq> 0"
  shows "\<exists>c s1 d1. ingest_batch ev p d [r1, r2] = (Success c, s1, d1)
            \<and> duplicate_count c = duplicates p + 1 \<and> total_inserted c = 1"
proof -
  from key have k: "natural_key v1 = natural_key v2" by (simp add: natural_key_def)
  from t on_time have ot1: "is_on_time ev v1" by (simp add: is_on_time_def cutoff_of_def)
  from v1 v2 have acc: "accepted_of ev d [r1, r2] = [v1, v2]"
    by (simp add: accepted_of_def map_filter_simps accept_def)
  from k have un: "unique_of ev d [r1, r2] = [v1]"
    unfolding unique_of_def acc by simp
  from ot1 have ot: "on_time_of ev d [r1, r2] = [v1]"
    unfolding on_time_of_def un by simp
  from v1 v2 have na: "\<forall>r\<in>set [r1, r2]. \<not> aborts ev d r" by (simp add: aborts_def)
  from t un have naive: "\<forall>v\<in>set (unique_of ev d [r1, r2]). \<exists>t. time v = Naive t" by simp
  from store bulk_insert_ok[of d ev "[v1]"] obtain d1 where "bulk_insert ev d [v1] = (None, d1)"
    by blast
  with ot have ins: "(if on_time_of ev d [r1, r2] \<noteq> []
      then bulk_insert ev d (on_time_of ev d [r1, r2]) else (None, d)) = (None, d1)" by simp
  from ingest_batch_run[OF na naive ins, of p] acc un ot show ?thesis
    by (simp add: duplicates_in_def)
qed

text \<open>
  C9 (amended). Deduplication keeps, for every key (equipment_id, metric_name, time) of the
  validated batch, exactly the first record with that key, in input order, and adds the
  number of dropped records to the duplicate counter of the pipeline. Two accepted
  readings with the same key and a naive time not before the cutoff, ingested into a store
  that accepts the insert, give total_inserted 1 and a duplicate_count one above the
  counter before the call: 1 on a new pipeline.
\<close>

theorem deduplicate_keeps_first:
  "(deduplicate st vs = (us, st') \<longrightarrow>
      distinct (map (\<lambda>v. (equipment_id v, metric_name v, time v)) us)
      \<and> subseq us vs
      \<and> (\<lambda>v. (equipment_id v, metric_name v, time v)) ` set us
          = (\<lambda>v. (equipment_id v, metric_name v, time v)) ` set vs
      \<and> (\<forall>u\<in>set us.
            find (\<lambda>v. equipment_id v = equipment_id u \<and> metric_name v = metric_name u
                       \<and> time v = time u) vs = Some u)
      \<and> duplicates st' = duplicates st + (int (length vs) - int (length us)))
   \<and> (validate_reading ev d r1 = Inr (Some v1) \<and> validate_reading ev d r2 = Inr (Some v2)
        \<and> equipment_id v1 = equipment_id v2 \<and> metric_name v1 = metric_name v2
        \<and> time v1 = time v2 \<and> time v1 = Naive t
        \<and> utcnow ev - timedelta_minutes (MAX_LATE_ARRIVAL_MINUTES (config ev)) \<le> t
        \<and> \<not> raises d InsertReadings \<and> MAX_BATCH_SIZE (config ev) \<noteq> 0 \<longrightarrow>
        (\<exists>c s1 d1. ingest_batch ev p d [r1, r2] = (Success c, s1, d1)
           \<and> duplicate_count c = duplicates p + 1 \<and> total_inserted c = 1)
        \<and> (\<exists>c s1 d1. ingest_batch ev init_stats d [r1, r2] = (Success c, s1, d1)
             \<and> duplicate_count c = 1 \<and> total_inserted c = 1))"
proof (intro conjI impI)
  assume dd: "deduplicate st vs = (us, st')"
  then have "(drop_duplicates [] vs,
      st\<lparr>duplicates := duplicates st + (int (length vs) - int (length (drop_duplicates [] vs)))\<rparr>)
      = (us, st')"
    by (simp only: deduplicate_eq)
  then have us: "us = drop_duplicates [] vs"
    and st': "st' = st\<lparr>duplicates := duplicates st + (int (length vs) - int (length us))\<rparr>"
    by auto
  from drop_duplicates_distinct[of "[]" vs]
  show "distinct (map (\<lambda>v. (equipment_id v, metric_name v, time v)) us)"
    unfolding us natural_key_fields(1) .
  show "subseq us vs" unfolding us by (rule drop_duplicates_subseq)
  from drop_duplicates_keys[of "[]" vs]
  show "(\<lambda>v. (equipment_id v, metric_name v, time v)) ` set us
          = (\<lambda>v. (equipment_id v, metric_name v, time v)) ` set vs"
    unfolding us natural_key_fields(1) by simp
  show "\<forall>u\<in>set us.
            find (\<lambda>v. equipment_id v = equipment_id u \<and> metric_name v = metric_name u
                       \<and> time v = time u) vs = Some u"
  proof
    fix u assume "u \<in> set us"
    then have "u \<in> set (drop_duplicates [] vs)" by (simp add: us)
    from drop_duplicates_first[OF this]
    show "find (\<lambda>v. equipment_id v = equipment_id u \<and> metric_name v = metric_name u
                       \<and> time v = time u) vs = Some u"
      unfolding natural_key_fields(2) .
  qed
  show "duplicates st' = duplicates st + (int (length vs) - int (length us))"
    by (subst st') simp
next
  assume h: "validate_reading ev d r1 = Inr (Some v1) \<and> validate_reading ev d r2 = Inr (Some v2)
        \<and> equipment_id v1 = equipment_id v2 \<and> metric_name v1 = metric_name v2
        \<and> time v1 = time v2 \<and> time v1 = Naive t
        \<and> utcnow ev - timedelta_minutes (MAX_LATE_ARRIVAL_MINUTES (config ev)) \<le> t
        \<and> \<not> raises d InsertReadings \<and> MAX_BATCH_SIZE (config ev) \<noteq> 0"
  then show "\<exists>c s1 d1. ingest_batch ev p d [r1, r2] = (Success c, s1, d1)
           \<and> duplicate_count c = duplicates p + 1 \<and> total_inserted c = 1"
    using two_duplicates_batch[of ev d r1 v1 r2 v2 t p] by blast
  from h have "\<exists>c s1 d1. ingest_batch ev init_stats d [r1, r2] = (Success c, s1, d1)
           \<and> duplicate_count c = duplicates init_stats + 1 \<and> total_inserted c = 1"
    using two_duplicates_batch[of ev d r1 v1 r2 v2 t init_stats] by blast
  moreover have "duplicates init_stats + 1 = 1" by (simp add: init_stats_def)
  ultimately show "\<exists>c s1 d1. ingest_batch ev init_stats d [r1, r2] = (Success c, s1, d1)
             \<and> duplicate_count c = 1 \<and> total_inserted c = 1"
    by simp
qed

lemma good_facts:
  "validate_reading ingest_env test_db good_reading = Inr (Some good_validated)"
  "is_on_time ingest_env good_validated"
  "\<not> raises test_db InsertReadings"
  "MAX_BATCH_SIZE (config ingest_env) \<noteq> 0"
  "deduplicate init_stats [good_validated, good_validated]
     = ([good_validated], init_stats\<lparr>duplicates := 1\<rparr>)"
  "time good_validated = Naive 10000000000"
  "utcnow ingest_env - timedelta_minutes (MAX_LATE_ARRIVAL_MINUTES (config ingest_env))
     \<le> 10000000000"
  by (simp_all add: ingest_defs good_reading_def good_validated_def is_on_time_def cutoff_of_def)

theorem deduplicate_keeps_first_witness:
  "deduplicate init_stats [good_validated, good_validated]
     = ([good_validated], init_stats\<lparr>duplicates := 1\<rparr>)
   \<and> find (\<lambda>v. equipment_id v = equipment_id good_validated
                \<and> metric_name v = metric_name good_validated \<and> time v = time good_validated)
        [good_validated, good_validated] = Some good_validated
   \<and> duplicates (init_stats\<lparr>duplicates := 1\<rparr>) = duplicates init_stats + 1
   \<and> validate_reading ingest_env test_db good_reading = Inr (Some good_validated)
   \<and> time good_validated = Naive 10000000000
   \<and> (\<exists>c s1 d1. ingest_batch ingest_env init_stats test_db [good_reading, good_reading]
          = (Success c, s1, d1) \<and> duplicate_count c = 1 \<and> total_inserted c = 1)"
  using deduplicate_keeps_first[of init_stats "[good_validated, good_validated]"
      "[good_validated]" "init_stats\<lparr>duplicates := 1\<rparr>" ingest_env test_db good_reading
      good_validated good_reading good_validated 10000000000 init_stats] good_facts
  by simp

theorem duplicate_count_counterexample:
  "fst (run_calls init_stats test_db
          [(ingest_env, [good_reading, good_reading]),
           (ingest_env, [good_reading, good_reading])])
     = [Success \<lparr>total_received = 2, total_inserted = 1, invalid_count = 0,
                 duplicate_count = 1, late_arrival_count = 0, processing_time_ms = 3\<rparr>,
        Success \<lparr>total_received = 2, total_inserted = 1, invalid_count = 0,
                 duplicate_count = 2, late_arrival_count = 0, processing_time_ms = 3\<rparr>]"
  by (simp add: ingest_defs good_reading_def)

text \<open>
  C1. A reading two hours old that passes validation and deduplication is counted late and
  is not written: the call succeeds with late_arrival_count 1 and total_inserted 0, and the
  table of readings stays empty.
\<close>

theorem late_reading_not_written:
  "\<exists>c st' d'.
      ingest_batch ingest_env init_stats test_db [late_reading] = (Success c, st', d')
      \<and> length (unique_of ingest_env test_db [late_reading]) = 1
      \<and> late_arrival_count c = 1 \<and> total_inserted c = 0 \<and> sensor_readings d' = []"
  by (simp add: ingest_defs late_reading_def unique_of_def accepted_of_def accept_def
      map_filter_simps)

text \<open>
  C2 (amended). When a call succeeds and counts no reading late, the number received is the
  number inserted plus the growth of the invalid counter plus the growth of the duplicate
  counter; on a new pipeline the counters start at zero and the growths are the returned
  counts.
\<close>

theorem ingest_count_identity:
  assumes ok: "ingest_batch ev st d rs = (Success c, st', d')"
    and no_late: "late_arrival_count c = late_arrivals st"
  shows "total_received c =
       total_inserted c + (invalid_count c - invalid st) + (duplicate_count c - duplicates st)
     \<and> (st = init_stats \<longrightarrow>
          total_received c = total_inserted c + invalid_count c + duplicate_count c)"
  using ingest_batch_accounting[OF ok] no_late
  by (simp add: init_stats_def)

lemma three_eval:
  "ingest_batch ingest_env init_stats test_db [good_reading, good_reading, unknown_reading] =
     (Success \<lparr>total_received = 3, total_inserted = 1, invalid_count = 1, duplicate_count = 1,
               late_arrival_count = 0, processing_time_ms = 3\<rparr>,
      \<lparr>total_processed = 3, invalid = 1, duplicates = 1, late_arrivals = 0\<rparr>,
      test_db\<lparr>sensor_readings := [good_validated],
       data_quality_metrics :=
        [\<lparr>total_records_processed = 3, invalid_records = 1, duplicate_records = 1,
          late_arriving_records = 0, qm_processing_time_ms = 3, pipeline_stage = ''ingestion'',
          duplicate_rate = double_round (1 / 3), invalid_rate = double_round (1 / 3)\<rparr>]\<rparr>)"
  by (simp add: ingest_defs good_reading_def unknown_reading_def good_validated_def)

theorem ingest_count_identity_witness:
  "\<exists>c st' d'.
      ingest_batch ingest_env init_stats test_db [good_reading, good_reading, unknown_reading]
        = (Success c, st', d')
      \<and> late_arrival_count c = late_arrivals init_stats
      \<and> total_received c = 3 \<and> total_inserted c = 1 \<and> invalid_count c = 1
      \<and> duplicate_count c = 1
      \<and> total_received c = total_inserted c + invalid_count c + duplicate_count c"
  using ingest_count_identity[OF three_eval] three_eval
  by (simp add: init_stats_def)

theorem ingest_count_identity_counterexample:
  "\<exists>c1 c2.
      fst (run_calls init_stats test_db
             [(ingest_env, [unknown_reading]), (ingest_env, [good_reading])])
        = [Success c1, Success c2]
      \<and> total_received c2 = 1 \<and> total_inserted c2 = 1 \<and> invalid_count c2 = 1
      \<and> duplicate_count c2 = 0
      \<and> total_received c2 \<noteq> total_inserted c2 + invalid_count c2 + duplicate_count c2"
  by (simp add: ingest_defs good_reading_def unknown_reading_def)


lemma execute_insert_frame:
  "execute_insert d c = Inr d' \<Longrightarrow>
     data_quality_metrics d' = data_quality_metrics d \<and> failing d' = failing d"
  by (auto simp: execute_insert_def split: if_splits)

lemma insert_chunks_frame:
  "insert_chunks d cs = (eo, d') \<Longrightarrow>
     data_quality_metrics d' = data_quality_metrics d \<and> failing d' = failing d"
proof (induction cs arbitrary: d)
  case Nil
  then show ?case by simp
next
  case (Cons c cs)
  show ?case
  proof (cases "execute_insert d c")
    case (Inl e)
    with Cons.prems show ?thesis by simp
  next
    case (Inr d1)
    with Cons.prems have "insert_chunks d1 cs = (eo, d')" by simp
    from Cons.IH[OF this] execute_insert_frame[OF Inr] show ?thesis by simp
  qed
qed

lemma bulk_insert_frame:
  "bulk_insert ev d xs = (eo, d') \<Longrightarrow>
     data_quality_metrics d' = data_quality_metrics d \<and> failing d' = failing d"
  using insert_chunks_frame[of d _ eo d']
  by (auto simp: bulk_insert_def Let_def split: if_splits)

lemma ingest_batch_Failure:
  assumes "ingest_batch ev st d rs = (Failure e n, st', d')"
  shows "n = int (length rs) \<and> data_quality_metrics d' = data_quality_metrics d"
proof -
  obtain x st1 where v: "validate_readings ev d st rs = (x, st1)"
    by (cases "validate_readings ev d st rs")
  show ?thesis
  proof (cases x)
    case (Inl e1)
    with v assms show ?thesis by (simp add: ingest_batch_def)
  next
    case (Inr vs)
    let ?us = "drop_duplicates [] vs"
    let ?st2 = "st1\<lparr>duplicates := duplicates st1 + (int (length vs) - int (length ?us))\<rparr>"
    have dd: "deduplicate st1 vs = (?us, ?st2)" by (rule deduplicate_eq)
    show ?thesis
    proof (cases "check_timeliness ev ?us")
      case (Inl e1)
      with v Inr dd assms show ?thesis by (simp add: ingest_batch_def)
    next
      case t: (Inr p)
      obtain on_time late where p: "p = (on_time, late)" by (cases p)
      obtain eo d1 where b: "(if on_time \<noteq> [] then bulk_insert ev d on_time else (None, d)) = (eo, d1)"
        by (cases "(if on_time \<noteq> [] then bulk_insert ev d on_time else (None, d))")
      have fr: "data_quality_metrics d1 = data_quality_metrics d"
      proof (cases "on_time \<noteq> []")
        case True
        with b have "bulk_insert ev d on_time = (eo, d1)" by simp
        from bulk_insert_frame[OF this] show ?thesis by simp
      next
        case False
        with b show ?thesis by simp
      qed
      show ?thesis
      proof (cases eo)
        case None
        with v Inr dd t p b assms show ?thesis by (simp add: ingest_batch_def Let_def)
      next
        case (Some e1)
        with v Inr dd t p b assms have "n = int (length rs)" and "d' = d1"
          by (simp_all add: ingest_batch_def Let_def)
        with fr show ?thesis by simp
      qed
    qed
  qed
qed




subsection \<open>Store failures\<close>

lemma reaches_registry_aborts:
  assumes "raises d QueryEquipment" "reaches_registry ev r"
  shows "aborts ev d r"
proof -
  from assms(2) obtain v ts where "has_required_fields r"
    "py_float (str_to_float ev) (the (in_metric_value r)) = Inr v"
    "parse_timestamp ev (the (in_time r)) = Inr ts"
    "is_value_reasonable (the (in_metric_name r)) v"
    by (auto simp: reaches_registry_def)
  with assms(1) have "validate_reading ev d r = Inl OperationalError"
    by (simp add: validate_reading_def query_equipment_def caught_def)
  then show ?thesis by (simp add: aborts_def)
qed

lemma ingest_batch_abort:
  assumes "\<exists>r\<in>set rs. aborts ev d r"
  shows "\<exists>e st' d'. ingest_batch ev st d rs = (Failure e (int (length rs)), st', d')"
proof -
  from validate_loop_abort[OF assms, of st "[]"] obtain e st1 where
    "validate_loop ev d rs st [] = (Inl e, st1)" by blast
  then have "validate_readings ev d st rs = (Inl e, st1)" by (simp add: validate_readings_def)
  then show ?thesis by (simp add: ingest_batch_def)
qed

lemma bulk_insert_raises:
  assumes "raises d InsertReadings" "0 < MAX_BATCH_SIZE (config ev)" "xs \<noteq> []"
  shows "bulk_insert ev d xs = (Some OperationalError, d)"
proof -
  from assms(2,3) have "chunks (nat (MAX_BATCH_SIZE (config ev))) xs
      = take (nat (MAX_BATCH_SIZE (config ev))) xs
          # chunks (nat (MAX_BATCH_SIZE (config ev))) (drop (nat (MAX_BATCH_SIZE (config ev))) xs)"
    by (subst chunks.simps) simp
  with assms show ?thesis
    by (simp add: bulk_insert_def Let_def execute_insert_def)
qed

lemma ingest_batch_insert_failure:
  assumes r: "raises d InsertReadings" and b: "0 < MAX_BATCH_SIZE (config ev)"
    and n: "on_time_of ev d rs \<noteq> []"
  shows "\<exists>e st' d'. ingest_batch ev st d rs = (Failure e (int (length rs)), st', d')"
proof -
  obtain res st' d' where i: "ingest_batch ev st d rs = (res, st', d')"
    by (cases "ingest_batch ev st d rs")
  show ?thesis
  proof (cases res)
    case (Success c)
    with i have "ingest_batch ev st d rs = (Success c, st', d')" by simp
    from ingest_batch_Success[OF this] obtain d1 where
      "(if on_time_of ev d rs \<noteq> [] then bulk_insert ev d (on_time_of ev d rs)
                else (None, d)) = (None, d1)" by blast
    with n bulk_insert_raises[OF r b n] show ?thesis by simp
  next
    case (Failure e k)
    with i have f: "ingest_batch ev st d rs = (Failure e k, st', d')" by simp
    from ingest_batch_Failure[OF f] f show ?thesis by auto
  qed
qed

lemma violations_of_thresholds_raises:
  "raises d QueryReadings \<Longrightarrow> ths \<noteq> [] \<Longrightarrow>
     violations_of_thresholds d eid cutoff ths acc = Inl OperationalError"
  by (cases ths) (auto simp: query_exceeding_def)

lemma check_thresholds_raises:
  assumes "raises d QueryEquipment \<or> raises d QueryReadings"
  shows "check_thresholds ev d eid minutes = []"
proof (cases "raises d QueryEquipment")
  case True
  then show ?thesis
    by (simp add: check_thresholds_def check_thresholds_try_def query_equipment_def)
next
  case False
  with assms have qr: "raises d QueryReadings" by simp
  show ?thesis
  proof (cases "query_equipment d eid")
    case (Inl e)
    then show ?thesis by (simp add: check_thresholds_def check_thresholds_try_def)
  next
    case (Inr q)
    show ?thesis
    proof (cases q)
      case None
      with Inr show ?thesis by (simp add: check_thresholds_def check_thresholds_try_def)
    next
      case (Some eq)
      let ?ths = "get_thresholds (config ev) (equipment_type_value (equipment_type eq))"
      show ?thesis
      proof (cases "?ths = []")
        case True
        with Inr Some show ?thesis
          by (simp add: check_thresholds_def check_thresholds_try_def)
      next
        case False
        from violations_of_thresholds_raises[OF qr False] Inr Some show ?thesis
          by (simp add: check_thresholds_def check_thresholds_try_def)
      qed
    qed
  qed
qed

text \<open>
  C4 (amended). When the store refuses the operation a call needs, \<^verbatim>\<open>analyze_trends\<close>
  returns an error indicator and \<^verbatim>\<open>ingest_batch\<close> returns a failure result (registry
  lookup of a reading that reaches it, or the insert of a non-empty on-time batch), while
  \<^verbatim>\<open>detect_anomalies\<close> and \<^verbatim>\<open>check_thresholds\<close> return the empty list, the value they
  also return when nothing is found. Every operation returns a value.
\<close>

theorem store_failure_results:
  "(raises d QueryHourly \<longrightarrow>
      analyze_trends lib ev d eid name days = Error (Raised OperationalError))
   \<and> (raises d QueryReadings \<longrightarrow> detect_anomalies forest ev d eid name hours = [])
   \<and> (raises d QueryEquipment \<or> raises d QueryReadings \<longrightarrow>
        check_thresholds ev d eid minutes = [])
   \<and> (raises d QueryEquipment \<and> (\<exists>r\<in>set rs. reaches_registry ev r) \<longrightarrow>
        (\<exists>e st' d'. ingest_batch ev st d rs = (Failure e (int (length rs)), st', d')))
   \<and> (raises d InsertReadings \<and> 0 < MAX_BATCH_SIZE (config ev) \<and> on_time_of ev d rs \<noteq> [] \<longrightarrow>
        (\<exists>e st' d'. ingest_batch ev st d rs = (Failure e (int (length rs)), st', d')))"
proof (intro conjI impI)
  assume "raises d QueryHourly"
  then show "analyze_trends lib ev d eid name days = Error (Raised OperationalError)"
    by (simp add: analyze_trends_def query_hourly_def)
next
  assume "raises d QueryReadings"
  then show "detect_anomalies forest ev d eid name hours = []"
    by (simp add: detect_anomalies_def query_readings_def)
next
  assume "raises d QueryEquipment \<or> raises d QueryReadings"
  then show "check_thresholds ev d eid minutes = []" by (rule check_thresholds_raises)
next
  assume "raises d QueryEquipment \<and> (\<exists>r\<in>set rs. reaches_registry ev r)"
  then have "\<exists>r\<in>set rs. aborts ev d r" using reaches_registry_aborts by blast
  then show "\<exists>e st' d'. ingest_batch ev st d rs = (Failure e (int (length rs)), st', d')"
    by (rule ingest_batch_abort)
next
  assume "raises d InsertReadings \<and> 0 < MAX_BATCH_SIZE (config ev) \<and> on_time_of ev d rs \<noteq> []"
  then show "\<exists>e st' d'. ingest_batch ev st d rs = (Failure e (int (length rs)), st', d')"
    using ingest_batch_insert_failure by blast
qed

lemma down_facts:
  "raises down_db QueryHourly" "raises down_db QueryReadings" "raises down_db QueryEquipment"
  "raises down_db InsertReadings"
  by (simp_all add: raises_def down_db_def all_ops_def)

lemma gas_reading_reaches: "reaches_registry test_env gas_reading"
  by (simp add: reaches_registry_def gas_reading_def mk_reading_def has_required_fields_def
      parse_timestamp_def is_value_reasonable_def ranges_def)

lemma insert_down_facts:
  "raises (gas_db\<lparr>failing := [InsertReadings]\<rparr>) InsertReadings"
  "0 < MAX_BATCH_SIZE (config test_env)"
  "on_time_of test_env (gas_db\<lparr>failing := [InsertReadings]\<rparr>) [gas_reading] \<noteq> []"
  by (simp_all add: raises_def test_env_def default_settings_def on_time_of_def unique_of_def
      accepted_of_def accept_def map_filter_simps gas_reading_def gas_db_def is_on_time_def
      cutoff_of_def ingest_defs)

theorem store_failure_results_witness:
  "raises down_db QueryHourly \<and> raises down_db QueryReadings \<and> raises down_db QueryEquipment
   \<and> reaches_registry test_env gas_reading
   \<and> analyze_trends any_library test_env down_db ''GAS-001'' ''gas_concentration'' 30
       = Error (Raised OperationalError)
   \<and> detect_anomalies quiet_forest test_env down_db ''GAS-001'' ''gas_concentration'' 24 = []
   \<and> check_thresholds test_env down_db ''GAS-001'' 30 = []
   \<and> (\<exists>e st' d'. ingest_batch test_env init_stats down_db [gas_reading]
         = (Failure e 1, st', d'))
   \<and> raises (gas_db\<lparr>failing := [InsertReadings]\<rparr>) InsertReadings
   \<and> (\<exists>e st' d'. ingest_batch test_env init_stats (gas_db\<lparr>failing := [InsertReadings]\<rparr>)
         [gas_reading] = (Failure e 1, st', d'))"
  using store_failure_results[of down_db any_library test_env "''GAS-001''" "''gas_concentration''" 30
      quiet_forest 24 30 "[gas_reading]" init_stats]
    store_failure_results[of "gas_db\<lparr>failing := [InsertReadings]\<rparr>" any_library test_env
      "''GAS-001''"
      "''gas_concentration''" 30 quiet_forest 24 30 "[gas_reading]" init_stats]
    down_facts gas_reading_reaches insert_down_facts
  by simp

theorem store_failure_counterexample:
  "raises (gas_db\<lparr>failing := all_ops\<rparr>) QueryReadings
   \<and> check_thresholds test_env (gas_db\<lparr>failing := all_ops\<rparr>) ''GAS-001'' 30 = []
   \<and> failing (gas_db\<lparr>sensor_readings := []\<rparr>) = []
   \<and> check_thresholds test_env (gas_db\<lparr>sensor_readings := []\<rparr>) ''GAS-001'' 30 = []"
  by (simp add: check_thresholds_def check_thresholds_try_def query_equipment_def raises_def
      gas_db_def test_env_def default_settings_def get_thresholds_def threshold_map_def
      query_exceeding_def all_ops_def)

subsection \<open>Insufficient data\<close>

lemma quiet_forest_flags_nothing:
  "filter (\<lambda>(row, pred, score). pred = - 1) (zip df (quiet_forest vs)) = []"
proof -
  have "\<forall>x\<in>set (zip df (quiet_forest vs)). \<not> (case x of (row, pred, score) \<Rightarrow> pred = - 1)"
  proof
    fix x assume x: "x \<in> set (zip df (quiet_forest vs))"
    obtain row p where xp: "x = (row, p)" by (cases x)
    with x have "p \<in> set (quiet_forest vs)" by (auto dest: set_zip_rightD)
    then have "p = (1, 0)" by (auto simp: quiet_forest_def)
    with xp show "\<not> (case x of (row, pred, score) \<Rightarrow> pred = - 1)" by simp
  qed
  then show ?thesis by (simp add: filter_empty_conv)
qed

lemma detect_anomalies_quiet:
  "detect_anomalies quiet_forest ev d eid name hours = []"
  by (simp add: detect_anomalies_def quiet_forest_flags_nothing split: sum.splits)

text \<open>
  C5 (amended). \<^verbatim>\<open>analyze_trends\<close> returns the error "Insufficient data for trend
  analysis" exactly when the store serves fewer than 24 hourly buckets, a value no
  successful summary equals; \<^verbatim>\<open>detect_anomalies\<close> with fewer than 50 points returns the
  empty list.
\<close>

theorem insufficient_data_results:
  "(analyze_trends lib ev d eid name days
       = Error (Message ''Insufficient data for trend analysis'')
     \<longleftrightarrow> (\<exists>df. query_hourly d eid name (utcnow ev - timedelta_days days) = Inr df
            \<and> length df < 24))
   \<and> ((\<exists>df. query_readings d eid name (utcnow ev - timedelta_hours hours) = Inr df
           \<and> length df < 50) \<longrightarrow>
        detect_anomalies forest ev d eid name hours = [])"
proof (intro conjI impI)
  show "analyze_trends lib ev d eid name days
       = Error (Message ''Insufficient data for trend analysis'')
     \<longleftrightarrow> (\<exists>df. query_hourly d eid name (utcnow ev - timedelta_days days) = Inr df
            \<and> length df < 24)"
  proof (cases "query_hourly d eid name (utcnow ev - timedelta_days days)")
    case (Inl e)
    then show ?thesis by (simp add: analyze_trends_def)
  next
    case (Inr df)
    then show ?thesis by (simp add: analyze_trends_def Let_def)
  qed
next
  assume "\<exists>df. query_readings d eid name (utcnow ev - timedelta_hours hours) = Inr df
           \<and> length df < 50"
  then show "detect_anomalies forest ev d eid name hours = []"
    by (auto simp: detect_anomalies_def)
qed

lemma gas_few:
  "query_readings gas_db ''GAS-001'' ''gas_concentration'' (utcnow test_env - timedelta_hours 24)
     = Inr (sensor_readings gas_db)"
  "length (sensor_readings gas_db) = 1"
  "query_hourly gas_db ''GAS-001'' ''gas_concentration'' (utcnow test_env - timedelta_days 30)
     = Inr []"
  by (simp_all add: query_readings_def query_hourly_def raises_def gas_db_def test_env_def
      timedelta_hours_def instant_def)

theorem insufficient_data_results_witness:
  "query_readings gas_db ''GAS-001'' ''gas_concentration'' (utcnow test_env - timedelta_hours 24)
     = Inr (sensor_readings gas_db)
   \<and> length (sensor_readings gas_db) < 50
   \<and> detect_anomalies quiet_forest test_env gas_db ''GAS-001'' ''gas_concentration'' 24 = []
   \<and> analyze_trends any_library test_env gas_db ''GAS-001'' ''gas_concentration'' 30
       = Error (Message ''Insufficient data for trend analysis'')"
  using insufficient_data_results[of any_library test_env gas_db "''GAS-001''" "''gas_concentration''" 30
      24 quiet_forest] gas_few
  by simp

lemma maint_many:
  "\<exists>df. query_readings maint_db ''TEMP-001'' ''temperature'' (utcnow maint_env - timedelta_hours 24)
      = Inr df \<and> length df = 500"
proof -
  have "filter (\<lambda>r. equipment_id r = ''TEMP-001'' \<and> metric_name r = ''temperature''
            \<and> instant (time r) > utcnow maint_env - timedelta_hours 24)
          (map maint_reading [0 ..< 500]) = map maint_reading [0 ..< 500]"
    by (rule filter_True)
       (auto simp: maint_reading_def maint_env_def instant_def timedelta_days_def
          timedelta_hours_def)
  then show ?thesis
    by (simp add: query_readings_def raises_def maint_db_def)
qed

theorem insufficient_data_counterexample:
  "(\<exists>df. query_readings gas_db ''GAS-001'' ''gas_concentration''
            (utcnow test_env - timedelta_hours 24) = Inr df \<and> length df < 50)
   \<and> (\<exists>df. query_readings maint_db ''TEMP-001'' ''temperature''
            (utcnow maint_env - timedelta_hours 24) = Inr df \<and> 50 \<le> length df)
   \<and> detect_anomalies quiet_forest test_env gas_db ''GAS-001'' ''gas_concentration'' 24
       = detect_anomalies quiet_forest maint_env maint_db ''TEMP-001'' ''temperature'' 24"
proof -
  from maint_many have "\<exists>df. query_readings maint_db ''TEMP-001'' ''temperature''
            (utcnow maint_env - timedelta_hours 24) = Inr df \<and> 50 \<le> length df" by auto
  with gas_few show ?thesis by (simp add: detect_anomalies_quiet)
qed

end
